theory Spec2Isabelle
  imports Main "HOL-Library.Word" "HOL-Library.Sublist"
begin

section \<open>Bytes, Base64 and hexadecimal text\<close>

text \<open>
  A file is the list of its bytes. The payload of a read crosses the bridge as Base64 text:
  the Android module calls \<^verbatim>\<open>Base64.encodeToString(bytes, Base64.NO_WRAP)\<close>, the iOS module
  \<^verbatim>\<open>base64EncodedStringWithOptions:0\<close>, and the JavaScript utilities decode it again with
  \<^verbatim>\<open>Buffer.from(base64, 'base64')\<close>. These are platform library calls; they are modelled
  by the standard alphabet with \<^verbatim>\<open>=\<close> padding and without line breaks.
\<close>

type_synonym byte = "8 word"

definition b64chars :: string where
  "b64chars = ''ABCDEFGHIJKLMNOPQRSTUVWXYZabcdefghijklmnopqrstuvwxyz0123456789+/''"

definition b64char :: "nat \<Rightarrow> char" where
  "b64char n = b64chars ! n"

fun index_of :: "char \<Rightarrow> string \<Rightarrow> nat" where
  "index_of c [] = 0"
| "index_of c (d # ds) = (if c = d then 0 else Suc (index_of c ds))"

definition b64val :: "char \<Rightarrow> nat" where
  "b64val c = index_of c b64chars"

fun base64_encode :: "byte list \<Rightarrow> string" where
  "base64_encode [] = []"
| "base64_encode [a] =
     [b64char (unat a div 4), b64char ((unat a mod 4) * 16), CHR ''='', CHR ''='']"
| "base64_encode [a, b] =
     [b64char (unat a div 4), b64char ((unat a mod 4) * 16 + unat b div 16),
      b64char ((unat b mod 16) * 4), CHR ''='']"
| "base64_encode (a # b # c # rest) =
     [b64char (unat a div 4), b64char ((unat a mod 4) * 16 + unat b div 16),
      b64char ((unat b mod 16) * 4 + unat c div 64), b64char (unat c mod 64)]
     @ base64_encode rest"

text \<open>
  Decoding of padded Base64 text, four characters at a time; a group that ends in padding is
  the last one. The utilities only decode what one of the encoders above produced.
\<close>

fun base64_decode :: "string \<Rightarrow> byte list" where
  "base64_decode (p # q # r # s # rest) =
     (if r = CHR ''='' then [of_nat (b64val p * 4 + b64val q div 16)]
      else if s = CHR ''='' then
        [of_nat (b64val p * 4 + b64val q div 16),
         of_nat ((b64val q mod 16) * 16 + b64val r div 4)]
      else
        [of_nat (b64val p * 4 + b64val q div 16),
         of_nat ((b64val q mod 16) * 16 + b64val r div 4),
         of_nat ((b64val r mod 4) * 64 + b64val s)] @ base64_decode rest)"
| "base64_decode _ = []"

text \<open>\<^verbatim>\<open>Buffer.toString('hex')\<close>: two lowercase hexadecimal digits for each byte.\<close>

definition hexchars :: string where
  "hexchars = ''0123456789abcdef''"

definition toHex :: "byte list \<Rightarrow> string" where
  "toHex bs = concat (map (\<lambda>b. [hexchars ! (unat b div 16), hexchars ! (unat b mod 16)]) bs)"

text \<open>\<^verbatim>\<open>String.prototype.toLowerCase\<close> on the ASCII range.\<close>

definition lower_char :: "char \<Rightarrow> char" where
  "lower_char c =
     (if (65::nat) \<le> of_char c \<and> of_char c \<le> (90::nat)
      then char_of (of_char c + (32::nat)) else c)"

definition toLowerCase :: "string \<Rightarrow> string" where
  "toLowerCase s = map lower_char s"

section \<open>Errors and native integer conversions\<close>

text \<open>
  What can be thrown or rejected with. Besides the exceptions of the platforms and the
  JavaScript \<^verbatim>\<open>Error\<close> objects, JavaScript code can throw any value; \<open>Thrown\<close> carries such a
  primitive value. Objects are truthy; a primitive is falsy when it is \<^verbatim>\<open>undefined\<close>,
  \<^verbatim>\<open>null\<close>, \<^verbatim>\<open>false\<close>, \<^verbatim>\<open>0\<close>, \<^verbatim>\<open>NaN\<close> or the empty string. Of the numbers only the
  integers and \<^verbatim>\<open>NaN\<close> are represented.
\<close>

datatype js_primitive =
    JsUndefined
  | JsNull
  | JsBoolean bool
  | JsNumber int
  | JsNaN
  | JsString string

datatype error =
    RuntimeException string
  | IllegalArgumentException
  | IOException string
  | NSException string
  | TypeError
  | Error string
  | Thrown js_primitive

fun truthy :: "error \<Rightarrow> bool" where
  "truthy (Thrown JsUndefined) = False"
| "truthy (Thrown JsNull) = False"
| "truthy (Thrown (JsBoolean b)) = b"
| "truthy (Thrown (JsNumber n)) = (n \<noteq> 0)"
| "truthy (Thrown JsNaN) = False"
| "truthy (Thrown (JsString s)) = (s \<noteq> [])"
| "truthy e = True"

text \<open>
  The bridge hands numbers over as doubles; the model takes the integer-valued ones as
  \<^typ>\<open>int\<close>. Kotlin's \<^verbatim>\<open>Double.toLong()\<close> saturates at the ends of the 64-bit range,
  \<^verbatim>\<open>Long.toInt()\<close> keeps the low 32 bits, and \<^verbatim>\<open>coerceAtMost\<close> is the minimum.
\<close>

definition toLong :: "int \<Rightarrow> int" where
  "toLong x = max (- (2 ^ 63)) (min x (2 ^ 63 - 1))"

definition toInt :: "int \<Rightarrow> int" where
  "toInt x = (x + 2 ^ 31) mod 2 ^ 32 - 2 ^ 31"

definition coerceAtMost :: "int \<Rightarrow> int \<Rightarrow> int" where
  "coerceAtMost x m = (if x > m then m else x)"

text \<open>
  \<^verbatim>\<open>unsignedLongLongValue\<close> of an \<^verbatim>\<open>NSNumber\<close>: the identity on \<open>0 \<le> x < 2^64\<close>, which is
  the only range the theorems below rely on; other values are reduced to 64 bits.
\<close>

definition unsignedLongLongValue :: "int \<Rightarrow> int" where
  "unsignedLongLongValue x = x mod 2 ^ 64"

section \<open>The handle registry of the native modules\<close>

text \<open>
  \<^verbatim>\<open>BigMediaHandle\<close> of the Android module. The descriptor and its channel are one field:
  the bytes that the channel reads at the time of the call. \<open>size_h\<close> is the
  \<^verbatim>\<open>Long\<close> that \<^verbatim>\<open>channel.size()\<close> returned when the file was opened.
\<close>

record BigMediaHandle =
  hid :: int
  uri :: string
  channel :: "byte list"
  size_h :: "64 word"
  mime :: "string option"
  name :: "string option"

text \<open>
  \<^verbatim>\<open>BigMediaHandle\<close> of the iOS module; \<open>fh\<close> is the bytes the file handle reads,
  \<open>size_i\<close> the \<^verbatim>\<open>unsigned long long\<close> file size taken at open.
\<close>

record IOSBigMediaHandle =
  url :: string
  fh :: "byte list"
  size_i :: "64 word"
  mime_i :: "string option"
  name_i :: "string option"

record 'h registry =
  nextId :: int
  handles :: "int \<rightharpoonup> 'h"

definition init :: "'h registry" where
  "init = \<lparr>nextId = 1, handles = Map.empty\<rparr>"

record MediaStats =
  size_s :: int
  mime_s :: "string option"
  name_s :: "string option"
  uri_s :: string

record Chunk =
  offset :: int
  bytesRead :: int
  eof :: bool
  base64 :: string

text \<open>
  What a URI resolves to when it is opened: the bytes of the file and the metadata the
  platform reports for it.
\<close>

record resource =
  res_bytes :: "byte list"
  res_mime :: "string option"
  res_name :: "string option"

subsection \<open>Android\<close>

definition android_open ::
  "(string \<rightharpoonup> resource) \<Rightarrow> BigMediaHandle registry \<Rightarrow> string
     \<Rightarrow> (error + int) \<times> BigMediaHandle registry" where
  "android_open cr reg uriString =
     (case cr uriString of
        None \<Rightarrow> (Inl (RuntimeException (''Cannot open uri: '' @ uriString)), reg)
      | Some f \<Rightarrow>
          let i = nextId reg in
          (Inr i,
           \<lparr>nextId = toInt (i + 1),
            handles = (handles reg)(i \<mapsto>
              \<lparr>hid = i, uri = uriString, channel = res_bytes f,
               size_h = of_nat (length (res_bytes f)),
               mime = res_mime f, name = res_name f\<rparr>)\<rparr>))"

text \<open>
  \<^verbatim>\<open>close\<close> first takes the entry out of the map and then calls \<^verbatim>\<open>channel.close()\<close> and
  \<^verbatim>\<open>pfd.close()\<close> on it, with no handler around them. Whether such a call throws is up to the
  operating system: \<open>closeChannel\<close> and \<open>closePfd\<close> say, for a handle record, what the call
  throws, if anything. The result is what \<^verbatim>\<open>close\<close> throws, if anything, and the registry
  it leaves.
\<close>

definition android_close ::
  "(BigMediaHandle \<Rightarrow> error option) \<Rightarrow> (BigMediaHandle \<Rightarrow> error option)
     \<Rightarrow> BigMediaHandle registry \<Rightarrow> int \<Rightarrow> error option \<times> BigMediaHandle registry" where
  "android_close closeChannel closePfd reg handle =
     (case handles reg handle of
        None \<Rightarrow> (None, reg)
      | Some h \<Rightarrow>
          (case closeChannel h of
             Some e \<Rightarrow> (Some e, reg\<lparr>handles := (handles reg)(handle := None)\<rparr>)
           | None \<Rightarrow> (closePfd h, reg\<lparr>handles := (handles reg)(handle := None)\<rparr>)))"

definition android_stat :: "BigMediaHandle registry \<Rightarrow> int \<Rightarrow> error + MediaStats" where
  "android_stat reg handle =
     (case handles reg handle of
        None \<Rightarrow> Inl (RuntimeException ''Invalid handle'')
      | Some h \<Rightarrow>
          Inr \<lparr>size_s = sint (size_h h), mime_s = mime h, name_s = name h, uri_s = uri h\<rparr>)"

definition android_playableUri :: "BigMediaHandle registry \<Rightarrow> int \<Rightarrow> error + string" where
  "android_playableUri reg handle =
     (case handles reg handle of
        None \<Rightarrow> Inl (RuntimeException ''Invalid handle'')
      | Some h \<Rightarrow> Inr (uri h))"

text \<open>
  \<^verbatim>\<open>FileChannel.read(ByteBuffer)\<close> on a regular file positioned at \<open>pos\<close>, into a buffer
  with \<open>n\<close> bytes of room: nothing is read into a full buffer, \<open>-1\<close> is the answer at or
  beyond the end of the file, and otherwise the buffer is filled as far as the file reaches.
\<close>

definition channel_read :: "byte list \<Rightarrow> int \<Rightarrow> int \<Rightarrow> int" where
  "channel_read bytes pos n =
     (if n = 0 then 0
      else if pos \<ge> int (length bytes) then - 1
      else min n (int (length bytes) - pos))"

text \<open>
  \<^verbatim>\<open>ByteBuffer.allocate\<close> and \<^verbatim>\<open>FileChannel.position\<close> throw \<^verbatim>\<open>IllegalArgumentException\<close> for
  a negative argument, in this order. When bytes were read, the offset lies inside the file,
  so the \<^verbatim>\<open>Long\<close> sum \<^verbatim>\<open>off + read\<close> does not leave the 64-bit range and is written as
  a sum of integers.
\<close>

definition android_readBase64 ::
  "BigMediaHandle registry \<Rightarrow> int \<Rightarrow> int \<Rightarrow> int \<Rightarrow> error + Chunk" where
  "android_readBase64 reg handle offs len =
     (case handles reg handle of
        None \<Rightarrow> Inl (RuntimeException ''Invalid handle'')
      | Some h \<Rightarrow>
          let off = toLong offs;
              len' = coerceAtMost (toLong len) (4 * 1024 * 1024)
          in if toInt len' < 0 then Inl IllegalArgumentException
             else if off < 0 then Inl IllegalArgumentException
             else
               let read = channel_read (channel h) off (toInt len')
               in if read \<le> 0
                  then Inr \<lparr>offset = off, bytesRead = 0, eof = True, base64 = ''''\<rparr>
                  else
                    let bytes = take (nat read) (drop (nat off) (channel h))
                    in Inr \<lparr>offset = off, bytesRead = read,
                            eof = (off + read \<ge> sint (size_h h)),
                            base64 = base64_encode bytes\<rparr>)"

subsection \<open>iOS\<close>

text \<open>
  The iOS methods return \<^verbatim>\<open>nil\<close> for a handle that is not in the dictionary; \<^verbatim>\<open>nil\<close> is
  \<open>None\<close>. Only \<^verbatim>\<open>open:\<close> throws. The name of a handle is the last path component of its
  URL, taken here from the resource. \<^verbatim>\<open>readDataOfLength:\<close> returns the bytes from the offset up
  to the requested length or the end of the file, and the sum \<^verbatim>\<open>off + d.length\<close> stays inside
  the file or at \<open>off\<close>, so it is written as a sum of integers.
\<close>

definition ios_open ::
  "(string \<rightharpoonup> resource) \<Rightarrow> IOSBigMediaHandle registry \<Rightarrow> string
     \<Rightarrow> (error + int) \<times> IOSBigMediaHandle registry" where
  "ios_open fm reg uriString =
     (case fm uriString of
        None \<Rightarrow> (Inl (NSException ''BigMediaLoader''), reg)
      | Some f \<Rightarrow>
          let i = nextId reg in
          (Inr i,
           \<lparr>nextId = toInt (i + 1),
            handles = (handles reg)(i \<mapsto>
              \<lparr>url = uriString, fh = res_bytes f,
               size_i = of_nat (length (res_bytes f)),
               mime_i = None, name_i = res_name f\<rparr>)\<rparr>))"

text \<open>
  \<^verbatim>\<open>close:\<close> calls \<^verbatim>\<open>closeFile\<close> on the file handle and only then removes the entry;
  \<^verbatim>\<open>closeFile\<close> raises when the operating system reports a failure, and there is no handler.
  \<open>closeFile\<close> says, for a handle record, what the call raises, if anything.
\<close>

definition ios_close ::
  "(IOSBigMediaHandle \<Rightarrow> error option)
     \<Rightarrow> IOSBigMediaHandle registry \<Rightarrow> int \<Rightarrow> error option \<times> IOSBigMediaHandle registry" where
  "ios_close closeFile reg handle =
     (case handles reg handle of
        None \<Rightarrow> (None, reg)
      | Some h \<Rightarrow>
          (case closeFile h of
             Some e \<Rightarrow> (Some e, reg)
           | None \<Rightarrow> (None, reg\<lparr>handles := (handles reg)(handle := None)\<rparr>)))"

text \<open>A release call that succeeds, and one that throws the given error.\<close>

definition succeeds :: "'h \<Rightarrow> error option" where
  "succeeds h = None"

definition throws :: "error \<Rightarrow> 'h \<Rightarrow> error option" where
  "throws e h = Some e"

definition ios_stat :: "IOSBigMediaHandle registry \<Rightarrow> int \<Rightarrow> MediaStats option" where
  "ios_stat reg handle =
     (case handles reg handle of
        None \<Rightarrow> None
      | Some h \<Rightarrow>
          Some \<lparr>size_s = uint (size_i h), mime_s = mime_i h, name_s = name_i h,
                uri_s = url h\<rparr>)"

definition ios_playableUri :: "IOSBigMediaHandle registry \<Rightarrow> int \<Rightarrow> string option" where
  "ios_playableUri reg handle =
     (case handles reg handle of
        None \<Rightarrow> None
      | Some h \<Rightarrow> Some (url h))"

definition ios_readBase64 ::
  "IOSBigMediaHandle registry \<Rightarrow> int \<Rightarrow> int \<Rightarrow> int \<Rightarrow> Chunk option" where
  "ios_readBase64 reg handle offs len =
     (case handles reg handle of
        None \<Rightarrow> None
      | Some h \<Rightarrow>
          let off = unsignedLongLongValue offs;
              len' = unsignedLongLongValue len;
              d = take (nat len') (drop (nat off) (fh h))
          in Some \<lparr>offset = off, bytesRead = int (length d),
                   eof = (off + int (length d) \<ge> uint (size_i h)),
                   base64 = base64_encode d\<rparr>)"

section \<open>The JavaScript utilities\<close>

text \<open>
  \<^verbatim>\<open>BigMediaLoader\<close> as the utilities call it: one of the two native modules. An exception
  of the Android method is thrown into JavaScript; \<^verbatim>\<open>nil\<close> from the iOS method arrives as
  \<^verbatim>\<open>null\<close> (\<open>Inr None\<close>).
\<close>

datatype NativeModule =
    Android "BigMediaHandle registry"
  | IOS "IOSBigMediaHandle registry"

definition BigMediaLoader_stat :: "NativeModule \<Rightarrow> int \<Rightarrow> error + MediaStats option" where
  "BigMediaLoader_stat nm handle =
     (case nm of
        Android reg \<Rightarrow>
          (case android_stat reg handle of Inl e \<Rightarrow> Inl e | Inr s \<Rightarrow> Inr (Some s))
      | IOS reg \<Rightarrow> Inr (ios_stat reg handle))"

definition BigMediaLoader_readBase64 ::
  "NativeModule \<Rightarrow> int \<Rightarrow> int \<Rightarrow> int \<Rightarrow> error + Chunk option" where
  "BigMediaLoader_readBase64 nm handle offs len =
     (case nm of
        Android reg \<Rightarrow>
          (case android_readBase64 reg handle offs len of
             Inl e \<Rightarrow> Inl e
           | Inr r \<Rightarrow> Inr (Some r))
      | IOS reg \<Rightarrow> Inr (ios_readBase64 reg handle offs len))"

definition BigMediaLoader_playableUri :: "NativeModule \<Rightarrow> int \<Rightarrow> error + string option" where
  "BigMediaLoader_playableUri nm handle =
     (case nm of
        Android reg \<Rightarrow>
          (case android_playableUri reg handle of Inl e \<Rightarrow> Inl e | Inr s \<Rightarrow> Inr (Some s))
      | IOS reg \<Rightarrow> Inr (ios_playableUri reg handle))"



text \<open>
  A callback is a function of the caller's state \<open>'s\<close> that returns normally (\<open>Inr ()\<close>) or
  throws, and leaves a new state.
\<close>

type_synonym 's chunk_callback = "byte list \<Rightarrow> int \<Rightarrow> 's \<Rightarrow> (error + unit) \<times> 's"
type_synonym 's progress_callback = "int \<Rightarrow> int \<Rightarrow> 's \<Rightarrow> (error + unit) \<times> 's"

record 's ChunkedReadOptions =
  chunkSize :: "int option"
  onProgress :: "'s progress_callback option"
  onChunk :: "'s chunk_callback option"

text \<open>The body of the \<^verbatim>\<open>while\<close> loop of \<^verbatim>\<open>readFileInChunks\<close>; \<open>None\<close> is a loop that never ends.\<close>

partial_function (option) chunks_loop ::
  "NativeModule \<Rightarrow> int \<Rightarrow> int \<Rightarrow> 's progress_callback option \<Rightarrow> 's chunk_callback option
     \<Rightarrow> int \<Rightarrow> int \<Rightarrow> 's \<Rightarrow> ((error + unit) \<times> 's) option" where
  "chunks_loop nm handle csize onP onC fsize offs st =
     (if offs < fsize then
        (case BigMediaLoader_readBase64 nm handle offs csize of
           Inl e \<Rightarrow> Some (Inl e, st)
         | Inr None \<Rightarrow> Some (Inl TypeError, st)
         | Inr (Some r) \<Rightarrow>
             (case (case onC of None \<Rightarrow> (Inr (), st)
                    | Some f \<Rightarrow> f (base64_decode (base64 r)) offs st) of
                (Inl e, st1) \<Rightarrow> Some (Inl e, st1)
              | (Inr u, st1) \<Rightarrow>
                  (case (case onP of None \<Rightarrow> (Inr (), st1)
                         | Some g \<Rightarrow> g (offs + bytesRead r) fsize st1) of
                     (Inl e, st2) \<Rightarrow> Some (Inl e, st2)
                   | (Inr v, st2) \<Rightarrow>
                       if eof r then Some (Inr (), st2)
                       else chunks_loop nm handle csize onP onC fsize
                              (offs + bytesRead r) st2)))
      else Some (Inr (), st))"

definition readFileInChunks ::
  "NativeModule \<Rightarrow> int \<Rightarrow> 's ChunkedReadOptions \<Rightarrow> 's \<Rightarrow> ((error + unit) \<times> 's) option" where
  "readFileInChunks nm handle options st =
     (let csize = (case chunkSize options of None \<Rightarrow> 4 * 1024 * 1024 | Some c \<Rightarrow> c)
      in case BigMediaLoader_stat nm handle of
           Inl e \<Rightarrow> Some (Inl e, st)
         | Inr None \<Rightarrow> Some (Inl TypeError, st)
         | Inr (Some stats) \<Rightarrow>
             chunks_loop nm handle csize (onProgress options) (onChunk options)
               (size_s stats) 0 st)"

subsection \<open>Upload with retries\<close>

text \<open>
  The caller's \<^verbatim>\<open>uploadFunction\<close> and \<^verbatim>\<open>onProgress\<close> work on the caller's state \<open>'w\<close>. The
  upload runs in a world that also keeps, in order, what the retry loop did: each call of
  \<^verbatim>\<open>uploadFunction\<close> with its offset, and each \<^verbatim>\<open>setTimeout\<close> wait with its delay.
  What \<^verbatim>\<open>uploadFunction\<close> rejects with can be any value: the cast to \<^verbatim>\<open>Error\<close> in the
  \<^verbatim>\<open>catch\<close> block does nothing when the code runs.
\<close>

datatype event = Invoke int | Wait int

record 'w world =
  user :: 'w
  trace :: "event list"

record 'w UploadOptions = "'w ChunkedReadOptions" +
  uploadFunction :: "'w chunk_callback"
  retryAttempts :: "int option"
  retryDelay :: "int option"

text \<open>
  \<^verbatim>\<open>lastError || new Error('Upload failed after all retry attempts')\<close>: the last rejection
  when there is one and it is truthy, the new generic error otherwise.
\<close>

definition lastError_or_new :: "error option \<Rightarrow> error" where
  "lastError_or_new lastError =
     (case lastError of
        None \<Rightarrow> Error ''Upload failed after all retry attempts''
      | Some e \<Rightarrow> if truthy e then e else Error ''Upload failed after all retry attempts'')"

function retry_loop ::
  "'w chunk_callback \<Rightarrow> int \<Rightarrow> int \<Rightarrow> byte list \<Rightarrow> int \<Rightarrow> int \<Rightarrow> error option
     \<Rightarrow> 'w world \<Rightarrow> (error + unit) \<times> 'w world" where
  "retry_loop uf attempts delay chunk offs attempt lastError st =
     (if attempt < attempts then
        (case uf chunk offs (user st) of
           (Inr u, w) \<Rightarrow> (Inr (), \<lparr>user = w, trace = trace st @ [Invoke offs]\<rparr>)
         | (Inl err, w) \<Rightarrow>
             retry_loop uf attempts delay chunk offs (attempt + 1) (Some err)
               \<lparr>user = w,
                trace = trace st @ [Invoke offs]
                  @ (if attempt < attempts - 1 then [Wait delay] else [])\<rparr>)
      else (Inl (lastError_or_new lastError), st))"
  by pat_completeness auto
termination
  by (relation "measure (\<lambda>(uf, attempts, delay, chunk, offs, attempt, lastError, st).
        nat (attempts - attempt))") auto

declare retry_loop.simps [simp del]

definition upload_onChunk :: "'w chunk_callback \<Rightarrow> int \<Rightarrow> int \<Rightarrow> 'w world chunk_callback" where
  "upload_onChunk uf attempts delay chunk offs st =
     retry_loop uf attempts delay chunk offs 0 None st"

definition in_world :: "'w progress_callback \<Rightarrow> 'w world progress_callback" where
  "in_world g a b st = (case g a b (user st) of (r, w) \<Rightarrow> (r, st\<lparr>user := w\<rparr>))"

definition uploadFileInChunks ::
  "NativeModule \<Rightarrow> int \<Rightarrow> 'w UploadOptions \<Rightarrow> 'w world
     \<Rightarrow> ((error + unit) \<times> 'w world) option" where
  "uploadFileInChunks nm handle options st =
     (let attempts = (case retryAttempts options of None \<Rightarrow> 3 | Some n \<Rightarrow> n);
          delay = (case retryDelay options of None \<Rightarrow> 1000 | Some d \<Rightarrow> d)
      in readFileInChunks nm handle
           \<lparr>chunkSize = chunkSize options,
            onProgress = map_option in_world (onProgress options),
            onChunk = Some (upload_onChunk (uploadFunction options) attempts delay)\<rparr> st)"

subsection \<open>Hashing\<close>

text \<open>
  The \<^verbatim>\<open>crypto\<close> hash object is the sequence of bytes it has been fed; \<^verbatim>\<open>update\<close> appends,
  and \<^verbatim>\<open>digest('hex')\<close> applies the digest function \<open>sha256\<close>, a parameter, to the whole.
\<close>

definition hash_update :: "(byte list) chunk_callback" where
  "hash_update chunk offs hash = (Inr (), hash @ chunk)"

definition calculateFileHash ::
  "(byte list \<Rightarrow> string) \<Rightarrow> NativeModule \<Rightarrow> int \<Rightarrow> (error + string) option" where
  "calculateFileHash sha256 nm handle =
     (case readFileInChunks nm handle
             \<lparr>chunkSize = None, onProgress = None, onChunk = Some hash_update\<rparr> [] of
        None \<Rightarrow> None
      | Some (Inl e, hash) \<Rightarrow> Some (Inl e)
      | Some (Inr u, hash) \<Rightarrow> Some (Inr (sha256 hash)))"

subsection \<open>File type detection\<close>

definition readFileHeader :: "NativeModule \<Rightarrow> int \<Rightarrow> int \<Rightarrow> error + byte list" where
  "readFileHeader nm handle headerSize =
     (case BigMediaLoader_readBase64 nm handle 0 headerSize of
        Inl e \<Rightarrow> Inl e
      | Inr None \<Rightarrow> Inl TypeError
      | Inr (Some r) \<Rightarrow> Inr (base64_decode (base64 r)))"

definition detectFileType :: "NativeModule \<Rightarrow> int \<Rightarrow> error + string" where
  "detectFileType nm handle =
     (case readFileHeader nm handle 16 of
        Inl e \<Rightarrow> Inl e
      | Inr header \<Rightarrow>
          let hex = toLowerCase (toHex header)
          in Inr (if prefix ''ffd8ff'' hex then ''image/jpeg''
                  else if prefix ''89504e47'' hex then ''image/png''
                  else if prefix ''47494638'' hex then ''image/gif''
                  else if prefix ''52494646'' hex \<and> sublist ''41564920'' hex then ''video/avi''
                  else if prefix ''000001b3'' hex then ''video/mpeg''
                  else if prefix ''66747970'' hex then ''video/mp4''
                  else if prefix ''1a45dfa3'' hex then ''video/webm''
                  else if prefix ''25504446'' hex then ''application/pdf''
                  else if prefix ''504b0304'' hex then ''application/zip''
                  else ''application/octet-stream''))"

section \<open>Specification-level descriptions used in the theorems\<close>

text \<open>
  \<open>open_on nm handle bytes\<close>: the handle is open on a file whose bytes are \<open>bytes\<close> and whose
  length is still the size that was recorded when it was opened.
\<close>

definition open_on :: "NativeModule \<Rightarrow> int \<Rightarrow> byte list \<Rightarrow> bool" where
  "open_on nm handle bytes =
     (case nm of
        Android reg \<Rightarrow>
          (case handles reg handle of
             None \<Rightarrow> False
           | Some h \<Rightarrow> channel h = bytes \<and> sint (size_h h) = int (length bytes))
      | IOS reg \<Rightarrow>
          (case handles reg handle of
             None \<Rightarrow> False
           | Some h \<Rightarrow> fh h = bytes \<and> uint (size_i h) = int (length bytes)))"

text \<open>The number of bytes one read asks the file for, given the caller's chunk size.\<close>

definition request_length :: "NativeModule \<Rightarrow> int \<Rightarrow> nat" where
  "request_length nm c =
     (case nm of
        Android reg \<Rightarrow> nat (toInt (coerceAtMost (toLong c) (4 * 1024 * 1024)))
      | IOS reg \<Rightarrow> nat (unsignedLongLongValue c))"

text \<open>A chunk size of at least one that the native integer conversions leave unchanged.\<close>

definition chunk_size_ok :: "NativeModule \<Rightarrow> int \<Rightarrow> bool" where
  "chunk_size_ok nm c = (case nm of Android reg \<Rightarrow> 1 \<le> c | IOS reg \<Rightarrow> 1 \<le> c \<and> c < 2 ^ 64)"

text \<open>The pieces of \<open>bytes\<close>, \<open>step\<close> bytes at a time, each with the offset it starts at.\<close>

function chunks_from :: "nat \<Rightarrow> int \<Rightarrow> byte list \<Rightarrow> (int \<times> byte list) list" where
  "chunks_from step offs bytes =
     (if step = 0 \<or> bytes = [] then []
      else (offs, take step bytes)
             # chunks_from step (offs + int (length (take step bytes))) (drop step bytes))"
  by pat_completeness auto
termination
  by (relation "measure (\<lambda>(step, offs, bytes). length bytes)") auto

declare chunks_from.simps [simp del]

text \<open>Calling the callbacks on a list of chunks in order, stopping at the first throw.\<close>

fun deliver ::
  "'s chunk_callback option \<Rightarrow> 's progress_callback option \<Rightarrow> int
     \<Rightarrow> (int \<times> byte list) list \<Rightarrow> 's \<Rightarrow> (error + unit) \<times> 's" where
  "deliver onC onP fsize [] st = (Inr (), st)"
| "deliver onC onP fsize ((offs, chunk) # cs) st =
     (case (case onC of None \<Rightarrow> (Inr (), st) | Some f \<Rightarrow> f chunk offs st) of
        (Inl e, st1) \<Rightarrow> (Inl e, st1)
      | (Inr u, st1) \<Rightarrow>
          (case (case onP of None \<Rightarrow> (Inr (), st1)
                 | Some g \<Rightarrow> g (offs + int (length chunk)) fsize st1) of
             (Inl e, st2) \<Rightarrow> (Inl e, st2)
           | (Inr v, st2) \<Rightarrow> deliver onC onP fsize cs st2))"

text \<open>The bytes behind an open handle together with the size recorded when it was opened.\<close>

definition handle_file :: "NativeModule \<Rightarrow> int \<Rightarrow> (byte list \<times> int) option" where
  "handle_file nm handle =
     (case nm of
        Android reg \<Rightarrow> map_option (\<lambda>h. (channel h, sint (size_h h))) (handles reg handle)
      | IOS reg \<Rightarrow> map_option (\<lambda>h. (fh h, uint (size_i h))) (handles reg handle))"



text \<open>
  The file behind an open iOS handle is replaced by other bytes (another process truncates or
  extends it); the record keeps the size taken at open.
\<close>

definition ios_file_changed ::
  "IOSBigMediaHandle registry \<Rightarrow> int \<Rightarrow> byte list \<Rightarrow> IOSBigMediaHandle registry" where
  "ios_file_changed reg handle bytes =
     (case handles reg handle of
        None \<Rightarrow> reg
      | Some h \<Rightarrow> reg\<lparr>handles := (handles reg)(handle \<mapsto> h\<lparr>fh := bytes\<rparr>)\<rparr>)"

text \<open>A chunk callback that only writes down, in order, the chunks it is given.\<close>

definition record_chunk :: "((int \<times> byte list) list) chunk_callback" where
  "record_chunk chunk offs log = (Inr (), log @ [(offs, chunk)])"

text \<open>
  A list of chunks that starts at offset \<open>p\<close>, where no chunk is empty and each chunk starts
  where the one before it ended.
\<close>

fun contiguous_from :: "int \<Rightarrow> (int \<times> byte list) list \<Rightarrow> bool" where
  "contiguous_from p [] = True"
| "contiguous_from p ((offs, chunk) # cs) =
     (offs = p \<and> chunk \<noteq> [] \<and> contiguous_from (p + int (length chunk)) cs)"

text \<open>
  What \<open>k\<close> attempts on the chunk at \<open>offs\<close> leave in the trace: \<open>k\<close> calls of the upload
  function, with one wait between each two of them.
\<close>

fun attempt_events :: "int \<Rightarrow> int \<Rightarrow> nat \<Rightarrow> event list" where
  "attempt_events offs delay 0 = []"
| "attempt_events offs delay (Suc 0) = [Invoke offs]"
| "attempt_events offs delay (Suc (Suc k)) =
     Invoke offs # Wait delay # attempt_events offs delay (Suc k)"

text \<open>The caller's state after \<open>k\<close> calls of the upload function on the same chunk.\<close>

definition after_calls :: "'w chunk_callback \<Rightarrow> byte list \<Rightarrow> int \<Rightarrow> nat \<Rightarrow> 'w \<Rightarrow> 'w" where
  "after_calls uf chunk offs k w = ((\<lambda>v. snd (uf chunk offs v)) ^^ k) w"

text \<open>The outcome of the call number \<open>k\<close> (from 0) of the upload function on the same chunk.\<close>

definition call_result :: "'w chunk_callback \<Rightarrow> byte list \<Rightarrow> int \<Rightarrow> nat \<Rightarrow> 'w \<Rightarrow> error + unit" where
  "call_result uf chunk offs k w = fst (uf chunk offs (after_calls uf chunk offs k w))"

subsection \<open>Example inputs\<close>

definition ten_bytes :: "byte list" where
  "ten_bytes = [48, 49, 50, 51, 52, 53, 54, 55, 56, 57]"

definition cap_bytes :: "byte list" where
  "cap_bytes = replicate 4194304 0"

definition big_bytes :: "byte list" where
  "big_bytes = replicate 10485760 0"

definition example_files :: "string \<rightharpoonup> resource" where
  "example_files =
     [''file:///ten.txt'' \<mapsto>
        \<lparr>res_bytes = ten_bytes, res_mime = Some ''text/plain'', res_name = Some ''ten.txt''\<rparr>,
      ''file:///cap.bin'' \<mapsto>
        \<lparr>res_bytes = cap_bytes, res_mime = None, res_name = Some ''cap.bin''\<rparr>,
      ''file:///big.bin'' \<mapsto>
        \<lparr>res_bytes = big_bytes, res_mime = None, res_name = Some ''big.bin''\<rparr>]"

definition android_ten :: "BigMediaHandle registry" where
  "android_ten = snd (android_open example_files init ''file:///ten.txt'')"

definition ios_ten :: "IOSBigMediaHandle registry" where
  "ios_ten = snd (ios_open example_files init ''file:///ten.txt'')"

definition android_cap :: "BigMediaHandle registry" where
  "android_cap = snd (android_open example_files init ''file:///cap.bin'')"

definition android_big :: "BigMediaHandle registry" where
  "android_big = snd (android_open example_files init ''file:///big.bin'')"

definition ios_big :: "IOSBigMediaHandle registry" where
  "ios_big = snd (ios_open example_files init ''file:///big.bin'')"

text \<open>
  Two upload functions whose state counts their calls: one fails on its first call and
  succeeds from then on, the other always fails.
\<close>

definition flaky_upload :: "nat chunk_callback" where
  "flaky_upload chunk offs calls =
     (if calls = 0 then Inl (Error ''Network error'') else Inr (), Suc calls)"

definition failing_upload :: "nat chunk_callback" where
  "failing_upload chunk offs calls = (Inl (Error ''Network error''), Suc calls)"

text \<open>An upload function that rejects without a reason, as \<^verbatim>\<open>Promise.reject()\<close> does.\<close>

definition undefined_upload :: "nat chunk_callback" where
  "undefined_upload chunk offs calls = (Inl (Thrown JsUndefined), Suc calls)"

text \<open>The Android registry after opening, as its first handle, a file with the given bytes.\<close>

definition android_file :: "byte list \<Rightarrow> BigMediaHandle registry" where
  "android_file bytes =
     snd (android_open
            [''file:///sample'' \<mapsto> \<lparr>res_bytes = bytes, res_mime = None, res_name = None\<rparr>]
            init ''file:///sample'')"

definition jpeg_bytes :: "byte list" where
  "jpeg_bytes = [0xFF, 0xD8, 0xFF, 0xE0, 0x00, 0x10, 0x4A, 0x46, 0x49, 0x46]"

definition avi_bytes :: "byte list" where
  "avi_bytes = [0x52, 0x49, 0x46, 0x46, 0x24, 0x08, 0x00, 0x00, 0x41, 0x56, 0x49, 0x20,
                0x4C, 0x49, 0x53, 0x54, 0x00, 0x00]"

definition wav_bytes :: "byte list" where
  "wav_bytes = [0x52, 0x49, 0x46, 0x46, 0x24, 0x08, 0x00, 0x00, 0x57, 0x41, 0x56, 0x45]"

section \<open>Base64 round trip\<close>

lemma b64val_b64char_all:
  "list_all (\<lambda>n. b64val (b64char n) = n \<and> b64char n \<noteq> CHR ''='') [0..<64]"
  by code_simp

lemma b64val_b64char: "n < 64 \<Longrightarrow> b64val (b64char n) = n"
  using b64val_b64char_all by (simp add: list_all_iff)

lemma b64char_not_pad: "n < 64 \<Longrightarrow> b64char n \<noteq> CHR ''=''"
  using b64val_b64char_all by (simp add: list_all_iff)

lemma b64char_in_alphabet_all: "list_all (\<lambda>n. b64char n \<in> set b64chars) [0..<64]"
  by code_simp

lemma b64char_in_alphabet: "n < 64 \<Longrightarrow> b64char n \<in> set b64chars"
  using b64char_in_alphabet_all by (simp add: list_all_iff)

lemma unat_byte_lt: "unat (a::byte) < 256"
  using unsigned_less [of a, where 'a = nat] by simp

lemma sextet_bounds:
  "unat (a::byte) div 4 < 64"
  "(unat (a::byte) mod 4) * 16 < 64"
  "(unat (a::byte) mod 4) * 16 + unat (b::byte) div 16 < 64"
  "(unat (b::byte) mod 16) * 4 < 64"
  "(unat (b::byte) mod 16) * 4 + unat (c::byte) div 64 < 64"
  "unat (c::byte) mod 64 < 64"
  using unat_byte_lt [of a] unat_byte_lt [of b] unat_byte_lt [of c] by simp_all

text \<open>The three bytes of a group are recovered from its four sextets.\<close>

lemma byte_rebuild:
  "(of_nat (unat (a::byte) div 4 * 4 + (unat a mod 4) * 16 div 16) :: byte) = a"
  "(of_nat (unat (a::byte) div 4 * 4 + ((unat a mod 4) * 16 + unat (b::byte) div 16) div 16)
      :: byte) = a"
  "(of_nat (((unat (a::byte) mod 4) * 16 + unat (b::byte) div 16) mod 16 * 16
      + (unat b mod 16) * 4 div 4) :: byte) = b"
  "(of_nat (((unat (a::byte) mod 4) * 16 + unat (b::byte) div 16) mod 16 * 16
      + ((unat b mod 16) * 4 + unat (c::byte) div 64) div 4) :: byte) = b"
  "(of_nat (((unat (b::byte) mod 16) * 4 + unat (c::byte) div 64) mod 4 * 64 + unat c mod 64)
      :: byte) = c"
proof -
  have lb: "unat b < 256" and lc: "unat c < 256"
    by (rule unat_byte_lt)+
  have 1: "unat a div 4 * 4 + (unat a mod 4) * 16 div 16 = unat a" by simp
  have 2: "unat a div 4 * 4 + ((unat a mod 4) * 16 + unat b div 16) div 16 = unat a"
    using lb by simp
  have 3: "((unat a mod 4) * 16 + unat b div 16) mod 16 * 16 + (unat b mod 16) * 4 div 4
      = unat b"
    using lb by simp
  have 4: "((unat a mod 4) * 16 + unat b div 16) mod 16 * 16
      + ((unat b mod 16) * 4 + unat c div 64) div 4 = unat b"
    using lb lc by simp
  have 5: "((unat b mod 16) * 4 + unat c div 64) mod 4 * 64 + unat c mod 64 = unat c"
    using lc by simp
  show "(of_nat (unat (a::byte) div 4 * 4 + (unat a mod 4) * 16 div 16) :: byte) = a"
    unfolding 1 by simp
  show "(of_nat (unat (a::byte) div 4 * 4 + ((unat a mod 4) * 16 + unat (b::byte) div 16) div 16)
      :: byte) = a"
    unfolding 2 by simp
  show "(of_nat (((unat (a::byte) mod 4) * 16 + unat (b::byte) div 16) mod 16 * 16
      + (unat b mod 16) * 4 div 4) :: byte) = b"
    unfolding 3 by simp
  show "(of_nat (((unat (a::byte) mod 4) * 16 + unat (b::byte) div 16) mod 16 * 16
      + ((unat b mod 16) * 4 + unat (c::byte) div 64) div 4) :: byte) = b"
    unfolding 4 by simp
  show "(of_nat (((unat (b::byte) mod 16) * 4 + unat (c::byte) div 64) mod 4 * 64 + unat c mod 64)
      :: byte) = c"
    unfolding 5 by simp
qed

lemma decode_group1:
  "s0 < 64 \<Longrightarrow> s1 < 64 \<Longrightarrow>
   base64_decode [b64char s0, b64char s1, CHR ''='', CHR ''=''] = [of_nat (s0 * 4 + s1 div 16)]"
  by (simp add: b64val_b64char del: of_nat_add of_nat_mult)

lemma decode_group2:
  "s0 < 64 \<Longrightarrow> s1 < 64 \<Longrightarrow> s2 < 64 \<Longrightarrow>
   base64_decode [b64char s0, b64char s1, b64char s2, CHR ''=''] =
     [of_nat (s0 * 4 + s1 div 16), of_nat ((s1 mod 16) * 16 + s2 div 4)]"
  by (simp add: b64val_b64char b64char_not_pad del: of_nat_add of_nat_mult)

lemma decode_group3:
  "s0 < 64 \<Longrightarrow> s1 < 64 \<Longrightarrow> s2 < 64 \<Longrightarrow> s3 < 64 \<Longrightarrow>
   base64_decode (b64char s0 # b64char s1 # b64char s2 # b64char s3 # rest) =
     [of_nat (s0 * 4 + s1 div 16), of_nat ((s1 mod 16) * 16 + s2 div 4),
      of_nat ((s2 mod 4) * 64 + s3)] @ base64_decode rest"
  by (simp add: b64val_b64char b64char_not_pad del: of_nat_add of_nat_mult)

lemma base64_roundtrip: "base64_decode (base64_encode bs) = bs"
proof (induction bs rule: base64_encode.induct)
  case 1
  show ?case by simp
next
  case (2 a)
  show ?case
    by (simp only: base64_encode.simps decode_group1 [OF sextet_bounds(1) sextet_bounds(2)]
        byte_rebuild)
next
  case (3 a b)
  show ?case
    by (simp only: base64_encode.simps
        decode_group2 [OF sextet_bounds(1) sextet_bounds(3) sextet_bounds(4)] byte_rebuild)
next
  case (4 a b c rest)
  show ?case
    by (simp only: base64_encode.simps append_Cons append_Nil
        decode_group3 [OF sextet_bounds(1) sextet_bounds(3) sextet_bounds(5) sextet_bounds(6)]
        byte_rebuild "4.IH")
qed

lemma base64_alphabet: "set (base64_encode bs) \<subseteq> set b64chars \<union> {CHR ''=''}"
proof (induction bs rule: base64_encode.induct)
  case 1
  show ?case by simp
next
  case (2 a)
  show ?case
    using b64char_in_alphabet [OF sextet_bounds(1) [of a]]
      b64char_in_alphabet [OF sextet_bounds(2) [of a]] by simp
next
  case (3 a b)
  show ?case
    using b64char_in_alphabet [OF sextet_bounds(1) [of a]]
      b64char_in_alphabet [OF sextet_bounds(3) [of a b]]
      b64char_in_alphabet [OF sextet_bounds(4) [of b]] by simp
next
  case (4 a b c rest)
  show ?case
    using "4.IH" b64char_in_alphabet [OF sextet_bounds(1) [of a]]
      b64char_in_alphabet [OF sextet_bounds(3) [of a b]]
      b64char_in_alphabet [OF sextet_bounds(5) [of b c]]
      b64char_in_alphabet [OF sextet_bounds(6) [of c]] by simp
qed

lemma base64_no_line_breaks:
  "CHR 0x0A \<notin> set (base64_encode bs) \<and> CHR 0x0D \<notin> set (base64_encode bs)"
proof -
  have "CHR 0x0A \<notin> set b64chars \<union> {CHR ''=''}" "CHR 0x0D \<notin> set b64chars \<union> {CHR ''=''}"
    by (simp_all add: b64chars_def)
  then show ?thesis using base64_alphabet [of bs] by blast
qed

lemma base64_length: "length (base64_encode bs) = 4 * ((length bs + 2) div 3)"
proof (induction bs rule: base64_encode.induct)
  case (4 a b c rest)
  have "(length (a # b # c # rest) + 2) div 3 = (length rest + 2) div 3 + 1" by simp
  with "4.IH" show ?case by simp
qed simp_all

section \<open>The native reads\<close>

lemma toLong_nonneg: "0 \<le> x \<Longrightarrow> toLong x = min x (2 ^ 63 - 1)"
  by (simp add: toLong_def)

lemma android_length:
  "0 \<le> len \<Longrightarrow> toInt (coerceAtMost (toLong len) (4 * 1024 * 1024)) = min len 4194304"
  by (simp add: toLong_nonneg coerceAtMost_def toInt_def min_def)

text \<open>What the Android read returns for a non-negative offset and length.\<close>

lemma android_readBase64_result:
  assumes h: "handles reg handle = Some h" and offs: "0 \<le> offs" and len: "0 \<le> len"
  shows "android_readBase64 reg handle offs len =
    Inr (let off = toLong offs;
             n = min (min len 4194304) (int (length (channel h)) - off)
         in if n \<le> 0 then \<lparr>offset = off, bytesRead = 0, eof = True, base64 = ''''\<rparr>
            else \<lparr>offset = off, bytesRead = n, eof = (off + n \<ge> sint (size_h h)),
                  base64 = base64_encode (take (nat n) (drop (nat off) (channel h)))\<rparr>)"
proof -
  have off: "0 \<le> toLong offs" using offs by (simp add: toLong_nonneg)
  have n: "toInt (coerceAtMost (toLong len) (4 * 1024 * 1024)) = min len 4194304"
    using len by (rule android_length)
  have n0: "0 \<le> min len 4194304" using len by simp
  show ?thesis
    unfolding android_readBase64_def Let_def n
    using off n0 by (auto simp add: h channel_read_def min_def)
qed

lemma android_read_fields:
  assumes h: "handles reg handle = Some h"
    and offs: "0 \<le> offs" "offs < 2 ^ 63" and len: "0 \<le> len"
    and r: "android_readBase64 reg handle offs len = Inr r" and pos: "1 \<le> bytesRead r"
  shows "offset r = offs \<and> bytesRead r \<le> len \<and> bytesRead r \<le> int (length (channel h)) - offs
    \<and> eof r = (offs + bytesRead r \<ge> sint (size_h h))
    \<and> base64 r = base64_encode (take (nat (bytesRead r)) (drop (nat offs) (channel h)))"
proof -
  have off: "toLong offs = offs" using offs by (simp add: toLong_def)
  show ?thesis
    using r pos unfolding android_readBase64_result [OF h offs(1) len] off Let_def
    by (auto split: if_splits)
qed

lemma ios_read_fields:
  assumes h: "handles reg handle = Some h"
    and offs: "0 \<le> offs" "offs < 2 ^ 63" and len: "0 \<le> len"
    and r: "ios_readBase64 reg handle offs len = Some r" and pos: "1 \<le> bytesRead r"
  shows "offset r = offs \<and> bytesRead r \<le> len \<and> bytesRead r \<le> int (length (fh h)) - offs
    \<and> eof r = (offs + bytesRead r \<ge> uint (size_i h))
    \<and> base64 r = base64_encode (take (nat (bytesRead r)) (drop (nat offs) (fh h)))"
proof -
  define d where "d = take (nat (unsignedLongLongValue len)) (drop (nat offs) (fh h))"
  have off: "unsignedLongLongValue offs = offs"
    using offs by (simp add: unsignedLongLongValue_def)
  have "len mod 2 ^ 64 \<le> len" using len by (simp add: zmod_le_nonneg_dividend)
  then have len': "unsignedLongLongValue len \<le> len" by (simp add: unsignedLongLongValue_def)
  have req: "r = \<lparr>offset = offs, bytesRead = int (length d),
                   eof = (offs + int (length d) \<ge> uint (size_i h)),
                   base64 = base64_encode d\<rparr>"
    using r by (simp add: ios_readBase64_def h off Let_def d_def)
  have dpos: "1 \<le> length d" using pos req by simp
  have "length d \<le> nat (unsignedLongLongValue len)" by (simp add: d_def)
  with len' len have d1: "int (length d) \<le> len" by linarith
  have "length d \<le> length (fh h) - nat offs" by (simp add: d_def)
  with dpos offs have d2: "int (length d) \<le> int (length (fh h)) - offs" by linarith
  have d3: "take (length d) (drop (nat offs) (fh h)) = d"
    by (simp add: d_def min_def)
  show ?thesis using d1 d2 d3 by (simp add: req)
qed

subsection \<open>The example registries\<close>

lemma android_ten_handle:
  "handles android_ten = [1 \<mapsto> \<lparr>hid = 1, uri = ''file:///ten.txt'', channel = ten_bytes,
      size_h = 10, mime = Some ''text/plain'', name = Some ''ten.txt''\<rparr>]"
  by (simp add: android_ten_def android_open_def example_files_def init_def ten_bytes_def)

lemma ios_ten_handle:
  "handles ios_ten = [1 \<mapsto> \<lparr>url = ''file:///ten.txt'', fh = ten_bytes,
      size_i = 10, mime_i = None, name_i = Some ''ten.txt''\<rparr>]"
  by (simp add: ios_ten_def ios_open_def example_files_def init_def ten_bytes_def)

lemma android_cap_handle:
  "handles android_cap = [1 \<mapsto> \<lparr>hid = 1, uri = ''file:///cap.bin'', channel = cap_bytes,
      size_h = 4194304, mime = None, name = Some ''cap.bin''\<rparr>]"
  by (simp add: android_cap_def android_open_def example_files_def init_def cap_bytes_def)

section \<open>Closing a handle\<close>

text \<open>
  Closing a handle id that is not in the registry calls no release function; it returns
  normally and leaves the registry as it is, on both platforms.
\<close>

lemma android_close_unknown:
  "handles reg handle = None \<Longrightarrow> android_close closeChannel closePfd reg handle = (None, reg)"
  by (simp add: android_close_def)

lemma ios_close_unknown:
  "handles reg handle = None \<Longrightarrow> ios_close closeFile reg handle = (None, reg)"
  by (simp add: ios_close_def)

text \<open>
  On Android the handle is taken out of the registry before anything is released, so after
  \<^verbatim>\<open>close\<close> the id is not in the registry whatever the release calls did, and a second
  \<^verbatim>\<open>close\<close> returns normally and changes nothing.
\<close>

lemma android_close_removes:
  "handles (snd (android_close closeChannel closePfd reg handle)) handle = None"
  by (simp add: android_close_def split: option.splits)

lemma android_close_twice:
  "android_close closeChannel' closePfd' (snd (android_close closeChannel closePfd reg handle)) handle
     = (None, snd (android_close closeChannel closePfd reg handle))"
  by (rule android_close_unknown) (rule android_close_removes)

text \<open>
  On iOS the same holds after a \<^verbatim>\<open>close\<close> whose \<^verbatim>\<open>closeFile\<close> returned.
\<close>

lemma ios_close_removes:
  "closeFile (the (handles reg handle)) = None \<Longrightarrow>
   handles (snd (ios_close closeFile reg handle)) handle = None"
  by (cases "handles reg handle") (simp_all add: ios_close_def)

lemma ios_close_twice:
  "closeFile (the (handles reg handle)) = None \<Longrightarrow>
   ios_close closeFile' (snd (ios_close closeFile reg handle)) handle
     = (None, snd (ios_close closeFile reg handle))"
  by (rule ios_close_unknown) (rule ios_close_removes)

text \<open>
  Claim C7, as stated, where the release of the file fails. On Android, with handle 1 open,
  \<^verbatim>\<open>close(1)\<close> ends with the \<^verbatim>\<open>IOException\<close> of \<^verbatim>\<open>channel.close()\<close>, and likewise with that of
  \<^verbatim>\<open>pfd.close()\<close>. On iOS, with handle 1 open and a \<^verbatim>\<open>closeFile\<close> that raises, \<^verbatim>\<open>close(1)\<close> ends
  with that exception and handle 1 is still in the registry, so that \<^verbatim>\<open>stat(1)\<close> still
  answers; a second \<^verbatim>\<open>close(1)\<close>, whose \<^verbatim>\<open>closeFile\<close> returns, then takes the handle out.
\<close>

theorem close_release_failure_propagates:
  "fst (android_close (throws (IOException ''channel'')) succeeds android_ten 1)
     = Some (IOException ''channel'') \<and>
   fst (android_close succeeds (throws (IOException ''pfd'')) android_ten 1)
     = Some (IOException ''pfd'') \<and>
   ios_close (throws (NSException ''closeFile'')) ios_ten 1
     = (Some (NSException ''closeFile''), ios_ten) \<and>
   ios_stat (snd (ios_close (throws (NSException ''closeFile'')) ios_ten 1)) 1
     = Some \<lparr>size_s = 10, mime_s = None, name_s = Some ''ten.txt'', uri_s = ''file:///ten.txt''\<rparr> \<and>
   ios_stat (snd (ios_close succeeds
      (snd (ios_close (throws (NSException ''closeFile'')) ios_ten 1)) 1)) 1 = None"
  by (simp add: ios_close_def android_close_def throws_def succeeds_def ios_ten_handle
      android_ten_handle ios_stat_def)

text \<open>
  Claim C7, amended. On both platforms, \<^verbatim>\<open>close\<close> on a handle id that is not in the registry
  returns normally and leaves the registry as it is. On an open handle \<^verbatim>\<open>close\<close> fails exactly
  when a release call fails, with the error of that call: on Android that of
  \<^verbatim>\<open>channel.close()\<close>, else that of \<^verbatim>\<open>pfd.close()\<close>; on iOS that of \<^verbatim>\<open>closeFile\<close>. After a
  \<^verbatim>\<open>close\<close> on Android, and after a \<^verbatim>\<open>close\<close> on iOS that returned normally, a second \<^verbatim>\<open>close\<close>
  of the same handle id returns normally and leaves the registry as it is, whatever the
  release calls would do.
\<close>

theorem close_idempotent:
  "(handles areg handle = None \<longrightarrow>
      android_close closeChannel closePfd areg handle = (None, areg)) \<and>
   (handles ireg handle = None \<longrightarrow> ios_close closeFile ireg handle = (None, ireg)) \<and>
   (handles areg handle = Some ah \<longrightarrow>
      fst (android_close closeChannel closePfd areg handle)
        = (case closeChannel ah of Some e \<Rightarrow> Some e | None \<Rightarrow> closePfd ah)) \<and>
   (handles ireg handle = Some ih \<longrightarrow>
      fst (ios_close closeFile ireg handle) = closeFile ih) \<and>
   android_close closeChannel' closePfd' (snd (android_close closeChannel closePfd areg handle))
      handle
     = (None, snd (android_close closeChannel closePfd areg handle)) \<and>
   (fst (ios_close closeFile ireg handle) = None \<longrightarrow>
      ios_close closeFile' (snd (ios_close closeFile ireg handle)) handle
        = (None, snd (ios_close closeFile ireg handle)))"
proof (intro conjI impI)
  assume "handles areg handle = Some ah"
  then show "fst (android_close closeChannel closePfd areg handle)
        = (case closeChannel ah of Some e \<Rightarrow> Some e | None \<Rightarrow> closePfd ah)"
    by (simp add: android_close_def split: option.splits)
next
  assume "handles ireg handle = Some ih"
  then show "fst (ios_close closeFile ireg handle) = closeFile ih"
    by (simp add: ios_close_def split: option.splits)
next
  assume "fst (ios_close closeFile ireg handle) = None"
  then have "handles (snd (ios_close closeFile ireg handle)) handle = None"
    by (auto simp: ios_close_def split: option.splits)
  then show "ios_close closeFile' (snd (ios_close closeFile ireg handle)) handle
        = (None, snd (ios_close closeFile ireg handle))"
    by (rule ios_close_unknown)
qed (simp_all add: android_close_unknown ios_close_unknown android_close_twice)

theorem close_idempotent_witness:
  "handles android_ten 7 = None \<and> handles ios_ten 7 = None \<and>
   android_close (throws (IOException ''channel'')) succeeds android_ten 7 = (None, android_ten) \<and>
   ios_close (throws (NSException ''closeFile'')) ios_ten 7 = (None, ios_ten) \<and>
   handles android_ten 1 \<noteq> None \<and> handles ios_ten 1 \<noteq> None \<and>
   fst (android_close succeeds succeeds android_ten 1) = None \<and>
   fst (ios_close succeeds ios_ten 1) = None \<and>
   android_close (throws (IOException ''channel'')) succeeds
      (snd (android_close succeeds succeeds android_ten 1)) 1
     = (None, snd (android_close succeeds succeeds android_ten 1)) \<and>
   ios_close (throws (NSException ''closeFile'')) (snd (ios_close succeeds ios_ten 1)) 1
     = (None, snd (ios_close succeeds ios_ten 1))"
  using close_idempotent [of android_ten 7 "throws (IOException ''channel'')" succeeds ios_ten
      "throws (NSException ''closeFile'')"]
    close_idempotent [of android_ten 1 succeeds succeeds ios_ten succeeds
      "the (handles android_ten 1)" "the (handles ios_ten 1)"
      "throws (IOException ''channel'')" succeeds "throws (NSException ''closeFile'')"]
  by (simp add: android_ten_handle ios_ten_handle succeeds_def)

section \<open>Operations on a handle that is not open\<close>

text \<open>On Android each of the three operations throws \<^verbatim>\<open>RuntimeException("Invalid handle")\<close>.\<close>

lemma android_invalid_handle:
  assumes "handles reg handle = None"
  shows "android_stat reg handle = Inl (RuntimeException ''Invalid handle'')"
    and "android_readBase64 reg handle offs len = Inl (RuntimeException ''Invalid handle'')"
    and "android_playableUri reg handle = Inl (RuntimeException ''Invalid handle'')"
  using assms by (simp_all add: android_stat_def android_readBase64_def android_playableUri_def)

text \<open>
  Claim C2. On iOS the three operations do not fail for a handle id that was never opened
  (7) or that has been closed (1, after a \<^verbatim>\<open>close\<close> that released the file): each returns
  \<^verbatim>\<open>nil\<close>, which reaches JavaScript as \<^verbatim>\<open>null\<close>, a normal return and no \<^verbatim>\<open>InvalidHandle\<close>
  error.
\<close>

theorem ios_invalid_handle_returns_nil:
  "ios_stat ios_ten 7 = None \<and>
   ios_readBase64 ios_ten 7 0 4 = None \<and>
   ios_playableUri ios_ten 7 = None \<and>
   ios_stat (snd (ios_close succeeds ios_ten 1)) 1 = None \<and>
   ios_readBase64 (snd (ios_close succeeds ios_ten 1)) 1 0 4 = None \<and>
   ios_playableUri (snd (ios_close succeeds ios_ten 1)) 1 = None \<and>
   BigMediaLoader_stat (IOS ios_ten) 7 = Inr None"
  by (simp add: ios_stat_def ios_readBase64_def ios_playableUri_def ios_ten_handle ios_close_def
      succeeds_def BigMediaLoader_stat_def)


section \<open>The per-call cap of the read\<close>

lemma android_big_handle:
  "handles android_big = [1 \<mapsto> \<lparr>hid = 1, uri = ''file:///big.bin'', channel = big_bytes,
      size_h = 10485760, mime = None, name = Some ''big.bin''\<rparr>]"
  by (simp add: android_big_def android_open_def example_files_def init_def big_bytes_def)

lemma ios_big_handle:
  "handles ios_big = [1 \<mapsto> \<lparr>url = ''file:///big.bin'', fh = big_bytes,
      size_i = 10485760, mime_i = None, name_i = Some ''big.bin''\<rparr>]"
  by (simp add: ios_big_def ios_open_def example_files_def init_def big_bytes_def)

lemma sint64_lt: "sint (w :: 64 word) < 2 ^ 63"
  using sint_lt [of w] by simp

text \<open>
  The Android read has the cap. For an open handle, a non-negative offset and a non-negative
  requested length, it is never rejected and never returns more than 4 MiB; when the request
  exceeds 4 MiB and the file has at least 4 MiB past the offset, exactly 4 MiB are returned
  and \<open>eof\<close> is \<open>offset + 4 MiB \<ge> size\<close> for the size recorded at open.
\<close>

lemma android_readBase64_clamped:
  assumes h: "handles reg handle = Some h" and offs: "0 \<le> offs" and len: "0 \<le> len"
  shows "\<exists>r. android_readBase64 reg handle offs len = Inr r \<and>
           bytesRead r \<le> 4 * 1024 * 1024 \<and>
           (4 * 1024 * 1024 < len \<and> offs + 4 * 1024 * 1024 \<le> int (length (channel h)) \<longrightarrow>
              bytesRead r = 4 * 1024 * 1024 \<and>
              eof r = (sint (size_h h) \<le> offs + 4 * 1024 * 1024))"
proof -
  have s: "sint (size_h h) < 2 ^ 63" by (rule sint64_lt)
  show ?thesis
    unfolding android_readBase64_result [OF h offs len] Let_def toLong_nonneg [OF offs]
    using s offs by (auto simp: min_def)
qed

text \<open>
  So a file of exactly 4 MiB, read from offset 0 with a requested length of 10 MiB, gives
  4 MiB and \<open>eof\<close> true.
\<close>

lemma android_readBase64_cap_boundary:
  "android_readBase64 android_cap 1 0 (10 * 1024 * 1024) =
     Inr \<lparr>offset = 0, bytesRead = 4 * 1024 * 1024, eof = True,
          base64 = base64_encode cap_bytes\<rparr>"
  by (simp add: android_readBase64_result [where h = "the (handles android_cap 1)"]
      android_cap_handle toLong_def cap_bytes_def)

text \<open>
  A negative requested length is outside what the read is specified for. Most are rejected
  by \<^verbatim>\<open>ByteBuffer.allocate\<close>; one below the 32-bit range wraps in \<^verbatim>\<open>len.toInt()\<close> to a large
  positive buffer size, and the read then returns the whole 10 MiB file.
\<close>

lemma android_negative_length_wraps:
  "android_readBase64 android_big 1 0 (- 2147483649) =
     Inr \<lparr>offset = 0, bytesRead = 10485760, eof = True, base64 = base64_encode big_bytes\<rparr> \<and>
   android_readBase64 android_big 1 0 (- 1) = Inl IllegalArgumentException"
  by (simp add: android_readBase64_def android_big_handle toLong_def coerceAtMost_def toInt_def
      channel_read_def big_bytes_def)

text \<open>
  Claim C1. The iOS read has no cap. With handle 1 open on a file of 10 MiB,
  \<^verbatim>\<open>readBase64(1, 0, 10 MiB)\<close> returns all 10 MiB in one result, with \<open>eof\<close> true, where a read
  clamped to 4 MiB returns 4 MiB and \<open>eof\<close> false, as the Android read does on the same file
  and the same request.
\<close>

theorem ios_readBase64_not_clamped:
  "BigMediaLoader_readBase64 (IOS ios_big) 1 0 (10 * 1024 * 1024) =
     Inr (Some \<lparr>offset = 0, bytesRead = 10 * 1024 * 1024, eof = True,
                base64 = base64_encode big_bytes\<rparr>) \<and>
   BigMediaLoader_readBase64 (Android android_big) 1 0 (10 * 1024 * 1024) =
     Inr (Some \<lparr>offset = 0, bytesRead = 4 * 1024 * 1024, eof = False,
                base64 = base64_encode (take (4 * 1024 * 1024) big_bytes)\<rparr>)"
  by (simp add: BigMediaLoader_readBase64_def ios_readBase64_def unsignedLongLongValue_def
      ios_big_handle android_big_handle toLong_def big_bytes_def
      android_readBase64_result [where h = "the (handles android_big 1)"])

section \<open>What a successful read returns\<close>

text \<open>
  Claim C4. On both platforms, for an open handle and a read that returns at least one byte:
  the result reports the offset, the number of bytes actually read (no more than requested
  and no more than the file has past the offset), \<open>eof\<close> as \<open>offset + bytesRead \<ge> size\<close> for
  the size recorded at open, and as payload the padded Base64 text of exactly those bytes,
  without line breaks. On a 10-byte file, reading 4 bytes at offset 8 returns 2 bytes,
  \<open>eof = true\<close> and the Base64 of the last two bytes.
\<close>

theorem readBase64_returns_actual_bytes:
  "(handle_file nm handle = Some (bytes, sz) \<and> 0 \<le> offs \<and> offs < 2 ^ 63 \<and> 0 \<le> len \<and>
    BigMediaLoader_readBase64 nm handle offs len = Inr (Some r) \<and> 1 \<le> bytesRead r \<longrightarrow>
      offset r = offs \<and> bytesRead r \<le> len \<and> bytesRead r \<le> int (length bytes) - offs \<and>
      eof r = (offs + bytesRead r \<ge> sz) \<and>
      base64 r = base64_encode (take (nat (bytesRead r)) (drop (nat offs) bytes)) \<and>
      base64_decode (base64 r) = take (nat (bytesRead r)) (drop (nat offs) bytes) \<and>
      length (base64 r) = 4 * ((nat (bytesRead r) + 2) div 3) \<and>
      CHR 0x0A \<notin> set (base64 r) \<and> CHR 0x0D \<notin> set (base64 r)) \<and>
   (handle_file nm handle = Some (bytes, 10) \<and> length bytes = 10 \<longrightarrow>
      BigMediaLoader_readBase64 nm handle 8 4 =
        Inr (Some \<lparr>offset = 8, bytesRead = 2, eof = True, base64 = base64_encode (drop 8 bytes)\<rparr>))"
proof (intro conjI impI)
  assume a: "handle_file nm handle = Some (bytes, sz) \<and> 0 \<le> offs \<and> offs < 2 ^ 63 \<and> 0 \<le> len \<and>
    BigMediaLoader_readBase64 nm handle offs len = Inr (Some r) \<and> 1 \<le> bytesRead r"
  have f: "offset r = offs \<and> bytesRead r \<le> len \<and> bytesRead r \<le> int (length bytes) - offs \<and>
      eof r = (offs + bytesRead r \<ge> sz) \<and>
      base64 r = base64_encode (take (nat (bytesRead r)) (drop (nat offs) bytes))"
  proof (cases nm)
    case (Android reg)
    with a obtain h where h: "handles reg handle = Some h" "channel h = bytes"
        "sint (size_h h) = sz"
      by (auto simp: handle_file_def)
    from a Android have r: "android_readBase64 reg handle offs len = Inr r"
      by (auto simp: BigMediaLoader_readBase64_def split: sum.splits)
    show ?thesis
      using android_read_fields [OF h(1) _ _ _ r] a h by simp
  next
    case (IOS reg)
    with a obtain h where h: "handles reg handle = Some h" "fh h = bytes"
        "uint (size_i h) = sz"
      by (auto simp: handle_file_def)
    from a IOS have r: "ios_readBase64 reg handle offs len = Some r"
      by (auto simp: BigMediaLoader_readBase64_def)
    show ?thesis
      using ios_read_fields [OF h(1) _ _ _ r] a h by simp
  qed
  then show "offset r = offs" "bytesRead r \<le> len" "bytesRead r \<le> int (length bytes) - offs"
    "eof r = (offs + bytesRead r \<ge> sz)"
    "base64 r = base64_encode (take (nat (bytesRead r)) (drop (nat offs) bytes))"
    by simp_all
  from f have b: "base64 r = base64_encode (take (nat (bytesRead r)) (drop (nat offs) bytes))"
    by simp
  show "base64_decode (base64 r) = take (nat (bytesRead r)) (drop (nat offs) bytes)"
    unfolding b by (rule base64_roundtrip)
  from f a have n: "length (take (nat (bytesRead r)) (drop (nat offs) bytes)) = nat (bytesRead r)"
    by auto
  show "length (base64 r) = 4 * ((nat (bytesRead r) + 2) div 3)"
    unfolding b base64_length n ..
  show "CHR 0x0A \<notin> set (base64 r)" "CHR 0x0D \<notin> set (base64 r)"
    unfolding b using base64_no_line_breaks by blast+
next
  assume a: "handle_file nm handle = Some (bytes, 10) \<and> length bytes = 10"
  show "BigMediaLoader_readBase64 nm handle 8 4 =
        Inr (Some \<lparr>offset = 8, bytesRead = 2, eof = True, base64 = base64_encode (drop 8 bytes)\<rparr>)"
  proof (cases nm)
    case (Android reg)
    with a obtain h where h: "handles reg handle = Some h" "channel h = bytes"
        "sint (size_h h) = 10"
      by (auto simp: handle_file_def)
    show ?thesis
      using a h by (simp add: Android BigMediaLoader_readBase64_def
          android_readBase64_result [OF h(1)] toLong_def)
  next
    case (IOS reg)
    with a obtain h where h: "handles reg handle = Some h" "fh h = bytes"
        "uint (size_i h) = 10"
      by (auto simp: handle_file_def)
    show ?thesis
      using a h by (simp add: IOS BigMediaLoader_readBase64_def ios_readBase64_def
          unsignedLongLongValue_def)
  qed
qed

theorem readBase64_returns_actual_bytes_witness:
  "handle_file (Android android_ten) 1 = Some (ten_bytes, 10) \<and> length ten_bytes = 10 \<and>
   BigMediaLoader_readBase64 (Android android_ten) 1 8 4 =
     Inr (Some \<lparr>offset = 8, bytesRead = 2, eof = True, base64 = ''ODk=''\<rparr>) \<and>
   handle_file (IOS ios_ten) 1 = Some (ten_bytes, 10) \<and>
   BigMediaLoader_readBase64 (IOS ios_ten) 1 8 4 =
     Inr (Some \<lparr>offset = 8, bytesRead = 2, eof = True, base64 = ''ODk=''\<rparr>) \<and>
   BigMediaLoader_readBase64 (Android android_ten) 1 0 4 =
     Inr (Some \<lparr>offset = 0, bytesRead = 4, eof = False, base64 = ''MDEyMw==''\<rparr>)"
proof -
  have e: "base64_encode (drop 8 ten_bytes) = ''ODk=''"
    "base64_encode (take 4 ten_bytes) = ''MDEyMw==''"
    unfolding ten_bytes_def by code_simp+
  have a: "handle_file (Android android_ten) 1 = Some (ten_bytes, 10)"
    by (simp add: handle_file_def android_ten_handle)
  have i: "handle_file (IOS ios_ten) 1 = Some (ten_bytes, 10)"
    by (simp add: handle_file_def ios_ten_handle)
  have l: "length ten_bytes = 10" by (simp add: ten_bytes_def)
  have r0: "BigMediaLoader_readBase64 (Android android_ten) 1 0 4 =
     Inr (Some \<lparr>offset = 0, bytesRead = 4, eof = False,
       base64 = base64_encode (take 4 ten_bytes)\<rparr>)"
    by (simp add: BigMediaLoader_readBase64_def android_ten_handle toLong_def l
        android_readBase64_result [where h = "the (handles android_ten 1)"])
  show ?thesis
    using readBase64_returns_actual_bytes [of "Android android_ten" 1 ten_bytes 10 0 4
        "\<lparr>offset = 0, bytesRead = 4, eof = False, base64 = base64_encode (take 4 ten_bytes)\<rparr>"]
      readBase64_returns_actual_bytes [of "IOS ios_ten" 1 ten_bytes 10 0 4
        "\<lparr>offset = 0, bytesRead = 4, eof = False, base64 = base64_encode (take 4 ten_bytes)\<rparr>"]
      a i l r0 e by simp
qed

section \<open>Reads that return no byte\<close>

text \<open>
  On Android a read that returns no byte (a request for zero bytes, or an offset at or beyond
  the end of the file) takes the \<^verbatim>\<open>read <= 0\<close> branch, whatever size was recorded at open.
\<close>

lemma android_zero_read:
  assumes h: "handles reg handle = Some h" and offs: "0 \<le> offs" "offs < 2 ^ 63"
    and len: "0 \<le> len" and zero: "len = 0 \<or> int (length (channel h)) \<le> offs"
  shows "android_readBase64 reg handle offs len =
    Inr \<lparr>offset = offs, bytesRead = 0, eof = True, base64 = ''''\<rparr>"
proof -
  have off: "toLong offs = offs" using offs by (simp add: toLong_def)
  show ?thesis
    unfolding android_readBase64_result [OF h offs(1) len] off Let_def
    using zero len by (auto simp: min_def)
qed

text \<open>While the file has the size recorded at open, one byte asked at that size is a zero read.\<close>

lemma android_read_at_size:
  assumes h: "handles reg handle = Some h"
    and same: "sint (size_h h) = int (length (channel h))"
  shows "android_readBase64 reg handle (sint (size_h h)) 1 =
    Inr \<lparr>offset = sint (size_h h), bytesRead = 0, eof = True, base64 = ''''\<rparr>"
  using android_zero_read [OF h, of "sint (size_h h)" 1] same sint64_lt [of "size_h h"]
  by simp

lemma ios_read_at_size:
  assumes h: "handles reg handle = Some h"
    and same: "uint (size_i h) = int (length (fh h))"
  shows "ios_readBase64 reg handle (uint (size_i h)) 1 =
    Some \<lparr>offset = uint (size_i h), bytesRead = 0, eof = True, base64 = ''''\<rparr>"
proof -
  have "uint (size_i h) < 2 ^ 64" using uint_lt2p [of "size_i h"] by simp
  then have u: "unsignedLongLongValue (int (length (fh h))) = int (length (fh h))"
    by (simp add: unsignedLongLongValue_def same)
  have one: "unsignedLongLongValue 1 = 1" by (simp add: unsignedLongLongValue_def)
  show ?thesis
    by (simp add: ios_readBase64_def h same u one Let_def)
qed

text \<open>
  Claim C5. The iOS read has no branch for a read that returns no byte; \<open>eof\<close> is always
  \<open>offset + bytesRead \<ge> size\<close> with the size recorded at open. A handle opened on the
  10-byte file, which has since been truncated to 5 bytes, read at offset 5: the offset is
  at the end of the file and no byte is returned, yet \<open>eof\<close> is false. The same happens when
  zero bytes are requested inside the file.
\<close>

theorem ios_zero_read_not_eof:
  "handles (ios_file_changed ios_ten 1 (take 5 ten_bytes)) 1 =
      Some \<lparr>url = ''file:///ten.txt'', fh = take 5 ten_bytes, size_i = 10, mime_i = None,
            name_i = Some ''ten.txt''\<rparr> \<and>
   ios_readBase64 (ios_file_changed ios_ten 1 (take 5 ten_bytes)) 1 5 1 =
      Some \<lparr>offset = 5, bytesRead = 0, eof = False, base64 = ''''\<rparr> \<and>
   ios_readBase64 ios_ten 1 0 0 =
      Some \<lparr>offset = 0, bytesRead = 0, eof = False, base64 = ''''\<rparr>"
  by (simp add: ios_readBase64_def ios_file_changed_def ios_ten_handle ten_bytes_def
      unsignedLongLongValue_def)


section \<open>The chunk loop\<close>

lemma android_length':
  "0 \<le> len \<Longrightarrow> toInt (coerceAtMost (toLong len) 4194304) = min len 4194304"
  using android_length [of len] by simp

lemma request_length_pos: "chunk_size_ok nm c \<Longrightarrow> 0 < request_length nm c"
  by (cases nm)
    (auto simp: chunk_size_ok_def request_length_def android_length' unsignedLongLongValue_def)

lemma read_step:
  assumes op: "open_on nm handle bytes" and c: "chunk_size_ok nm c"
    and offs: "0 \<le> offs" "offs < int (length bytes)"
  defines "piece \<equiv> take (request_length nm c) (drop (nat offs) bytes)"
  shows "BigMediaLoader_readBase64 nm handle offs c =
    Inr (Some \<lparr>offset = offs, bytesRead = int (length piece),
               eof = (int (length bytes) \<le> offs + int (length piece)),
               base64 = base64_encode piece\<rparr>)"
proof (cases nm)
  case (Android reg)
  with op obtain h where h: "handles reg handle = Some h" "channel h = bytes"
      "sint (size_h h) = int (length bytes)"
    by (auto simp: open_on_def split: option.splits)
  from c Android have c1: "1 \<le> c" by (simp add: chunk_size_ok_def)
  then have c0: "0 \<le> c" by simp
  have rl: "request_length nm c = nat (min c 4194304)"
    by (simp add: Android request_length_def android_length' [OF c0])
  have "offs < 2 ^ 63" using offs h(3) sint64_lt [of "size_h h"] by simp
  then have off: "toLong offs = offs" using offs by (simp add: toLong_def)
  define n where "n = min (min c 4194304) (int (length bytes) - offs)"
  have "length piece = min (nat (min c 4194304)) (length bytes - nat offs)"
    by (simp add: piece_def rl min.commute)
  then have lp: "int (length piece) = n"
    unfolding n_def using offs c1 by linarith
  have "take (length piece) (drop (nat offs) bytes) = piece"
    by (simp add: piece_def min_def)
  then have tk: "take (nat n) (drop (nat offs) bytes) = piece"
    unfolding lp [symmetric] by simp
  have pos: "\<not> n \<le> 0"
    unfolding n_def using offs c1 by simp
  have "android_readBase64 reg handle offs c =
    Inr (if n \<le> 0 then \<lparr>offset = offs, bytesRead = 0, eof = True, base64 = ''''\<rparr>
         else \<lparr>offset = offs, bytesRead = n, eof = (offs + n \<ge> sint (size_h h)),
               base64 = base64_encode (take (nat n) (drop (nat offs) (channel h)))\<rparr>)"
    unfolding android_readBase64_result [OF h(1) offs(1) c0] off Let_def h(2) n_def ..
  then have "android_readBase64 reg handle offs c =
    Inr \<lparr>offset = offs, bytesRead = int (length piece),
         eof = (int (length bytes) \<le> offs + int (length piece)),
         base64 = base64_encode piece\<rparr>"
    unfolding h tk lp using pos by simp
  then show ?thesis
    unfolding Android BigMediaLoader_readBase64_def by simp
next
  case (IOS reg)
  with op obtain h where h: "handles reg handle = Some h" "fh h = bytes"
      "uint (size_i h) = int (length bytes)"
    by (auto simp: open_on_def split: option.splits)
  from c IOS have c1: "1 \<le> c" "c < 2 ^ 64" by (simp_all add: chunk_size_ok_def)
  have "uint (size_i h) < 2 ^ 64" using uint_lt2p [of "size_i h"] by simp
  then have off: "unsignedLongLongValue offs = offs"
    using offs h(3) by (simp add: unsignedLongLongValue_def)
  show ?thesis
    unfolding IOS BigMediaLoader_readBase64_def
    by (simp add: ios_readBase64_def h off Let_def piece_def request_length_def IOS)
qed

lemma chunks_from_Nil: "chunks_from step offs [] = []"
  by (subst chunks_from.simps) simp

lemma drop_piece:
  "drop step (drop n xs) = drop (n + length (take step (drop n xs))) xs"
  by (simp add: min_def add.commute)

lemma chunks_loop_deliver:
  assumes op: "open_on nm handle bytes" and c: "chunk_size_ok nm c"
  shows "0 \<le> offs \<Longrightarrow> offs \<le> int (length bytes) \<Longrightarrow>
    chunks_loop nm handle c onP onC (int (length bytes)) offs st =
      Some (deliver onC onP (int (length bytes))
              (chunks_from (request_length nm c) offs (drop (nat offs) bytes)) st)"
proof (induction "length bytes - nat offs" arbitrary: offs st rule: less_induct)
  case less
  show ?case
  proof (cases "offs < int (length bytes)")
    case False
    with less.prems have "drop (nat offs) bytes = []" by simp
    then have "chunks_from (request_length nm c) offs (drop (nat offs) bytes) = []"
      by (simp add: chunks_from_Nil)
    then show ?thesis using False
      by (subst chunks_loop.simps) simp
  next
    case True
    define step where "step = request_length nm c"
    define piece where "piece = take step (drop (nat offs) bytes)"
    have step: "0 < step" unfolding step_def using c by (rule request_length_pos)
    have ne: "drop (nat offs) bytes \<noteq> []" using True less.prems by simp
    then have pne: "piece \<noteq> []" using step by (simp add: piece_def)
    have ple: "offs + int (length piece) \<le> int (length bytes)"
      using True less.prems by (simp add: piece_def)
    have rd: "BigMediaLoader_readBase64 nm handle offs c =
      Inr (Some \<lparr>offset = offs, bytesRead = int (length piece),
               eof = (int (length bytes) \<le> offs + int (length piece)),
               base64 = base64_encode piece\<rparr>)"
      unfolding piece_def step_def using op c less.prems(1) True by (rule read_step)
    have nat_next: "nat (offs + int (length piece)) = nat offs + length piece"
      using less.prems by (simp add: nat_add_distrib)
    have cond: "\<not> (step = 0 \<or> drop (nat offs) bytes = [])" using step ne by simp
    have dr: "drop step (drop (nat offs) bytes) = drop (nat (offs + int (length piece))) bytes"
      unfolding nat_next unfolding piece_def by (rule drop_piece)
    have "chunks_from step offs (drop (nat offs) bytes) =
      (offs, take step (drop (nat offs) bytes))
        # chunks_from step (offs + int (length (take step (drop (nat offs) bytes))))
            (drop step (drop (nat offs) bytes))"
      by (subst chunks_from.simps) (simp only: cond if_False)
    then have cf: "chunks_from step offs (drop (nat offs) bytes) =
      (offs, piece) # chunks_from step (offs + int (length piece))
                        (drop (nat (offs + int (length piece))) bytes)"
      unfolding piece_def [symmetric] dr .
    have dec: "length bytes - nat (offs + int (length piece)) < length bytes - nat offs"
      using pne True less.prems unfolding nat_next by (cases piece) auto
    have IH: "\<And>st'. chunks_loop nm handle c onP onC (int (length bytes))
        (offs + int (length piece)) st' =
      Some (deliver onC onP (int (length bytes))
              (chunks_from step (offs + int (length piece))
                 (drop (nat (offs + int (length piece))) bytes)) st')"
      unfolding step_def using less.hyps [OF dec] less.prems ple by simp
    have last: "int (length bytes) \<le> offs + int (length piece) \<Longrightarrow>
      chunks_from step (offs + int (length piece))
         (drop (nat (offs + int (length piece))) bytes) = []"
      unfolding nat_next by (simp add: chunks_from_Nil)
    show ?thesis
      unfolding step_def [symmetric] cf
      by (subst chunks_loop.simps)
        (auto simp add: True rd base64_roundtrip IH last chunks_from_Nil
          split: sum.splits prod.splits option.splits)
  qed
qed

lemma readFileInChunks_deliver:
  assumes op: "open_on nm handle bytes"
    and c: "chunk_size_ok nm (case chunkSize options of None \<Rightarrow> 4 * 1024 * 1024 | Some c \<Rightarrow> c)"
  shows "readFileInChunks nm handle options st =
    Some (deliver (onChunk options) (onProgress options) (int (length bytes))
            (chunks_from
               (request_length nm (case chunkSize options of None \<Rightarrow> 4 * 1024 * 1024 | Some c \<Rightarrow> c))
               0 bytes) st)"
proof -
  have st: "BigMediaLoader_stat nm handle = Inr (Some s) \<Longrightarrow> size_s s = int (length bytes)" for s
    using op by (cases nm)
      (auto simp: open_on_def BigMediaLoader_stat_def android_stat_def ios_stat_def
        split: option.splits)
  have ex: "\<exists>s. BigMediaLoader_stat nm handle = Inr (Some s)"
    using op by (cases nm)
      (auto simp: open_on_def BigMediaLoader_stat_def android_stat_def ios_stat_def
        split: option.splits)
  then obtain s where s: "BigMediaLoader_stat nm handle = Inr (Some s)" by blast
  show ?thesis
    unfolding readFileInChunks_def Let_def s
    using chunks_loop_deliver [OF op c, of 0] st [OF s] by simp
qed


section \<open>Chunks delivered by readFileInChunks\<close>

lemma deliver_record:
  "deliver (Some record_chunk) None fsize cs log = (Inr (), log @ cs)"
  by (induction cs arbitrary: log) (auto simp: record_chunk_def)

lemma chunks_from_concat:
  "0 < step \<Longrightarrow> concat (map snd (chunks_from step offs bytes)) = bytes"
proof (induction step offs bytes rule: chunks_from.induct)
  case (1 step offs bytes)
  show ?case
  proof (cases "bytes = []")
    case True
    then show ?thesis by (simp add: chunks_from_Nil)
  next
    case False
    with 1 show ?thesis
      by (subst chunks_from.simps) simp
  qed
qed

lemma chunks_from_contiguous:
  "0 < step \<Longrightarrow> contiguous_from offs (chunks_from step offs bytes)"
proof (induction step offs bytes rule: chunks_from.induct)
  case (1 step offs bytes)
  show ?case
  proof (cases "bytes = []")
    case True
    then show ?thesis by (simp add: chunks_from_Nil)
  next
    case False
    with 1 show ?thesis
      by (subst chunks_from.simps) simp
  qed
qed

lemma contiguous_lower: "contiguous_from p cs \<Longrightarrow> (q, c) \<in> set cs \<Longrightarrow> p \<le> q"
proof (induction cs arbitrary: p)
  case Nil
  then show ?case by simp
next
  case (Cons a cs)
  obtain o1 c1 where a: "a = (o1, c1)" by (cases a)
  from Cons.prems a have c: "contiguous_from (p + int (length c1)) cs" and o: "o1 = p" by simp_all
  from Cons.prems(2) a consider "(q, c) = (o1, c1)" | "(q, c) \<in> set cs" by auto
  then show ?case
  proof cases
    case 1
    with o show ?thesis by simp
  next
    case 2
    from Cons.IH [OF c 2] show ?thesis by simp
  qed
qed

lemma contiguous_increasing: "contiguous_from p cs \<Longrightarrow> sorted_wrt (<) (map fst cs)"
proof (induction cs arbitrary: p)
  case Nil
  then show ?case by simp
next
  case (Cons a cs)
  obtain o1 c1 where a: "a = (o1, c1)" by (cases a)
  from Cons.prems a have c: "contiguous_from (p + int (length c1)) cs" and o: "o1 = p"
    and ne: "c1 \<noteq> []" by simp_all
  have "o1 < q" if "(q, c') \<in> set cs" for q c'
    using contiguous_lower [OF c that] o ne by (cases c1) auto
  then show ?case using Cons.IH [OF c] a by auto
qed

text \<open>
  Claim C3. For a handle open on a file whose length is the size recorded at open, and a
  chunk size of at least one, \<^verbatim>\<open>readFileInChunks\<close> returns, and the chunks it hands to
  \<^verbatim>\<open>onChunk\<close> start at offset 0, are non-empty, each start where the one before ended (so
  their offsets increase strictly and they do not overlap), and their decoded payloads
  concatenated in delivery order are the bytes of the file.
\<close>

theorem readFileInChunks_roundtrip:
  assumes op: "open_on nm handle bytes" and c: "chunk_size_ok nm c"
  shows "\<exists>cs. readFileInChunks nm handle
              \<lparr>chunkSize = Some c, onProgress = None, onChunk = Some record_chunk\<rparr> []
            = Some (Inr (), cs) \<and>
          contiguous_from 0 cs \<and> sorted_wrt (<) (map fst cs) \<and> concat (map snd cs) = bytes"
proof -
  let ?cs = "chunks_from (request_length nm c) 0 bytes"
  have step: "0 < request_length nm c" using c by (rule request_length_pos)
  have "readFileInChunks nm handle
          \<lparr>chunkSize = Some c, onProgress = None, onChunk = Some record_chunk\<rparr> []
        = Some (Inr (), ?cs)"
    using readFileInChunks_deliver [OF op, of "\<lparr>chunkSize = Some c, onProgress = None,
        onChunk = Some record_chunk\<rparr>" "[]"] c
    by (simp add: deliver_record)
  moreover have "contiguous_from 0 ?cs" using step by (rule chunks_from_contiguous)
  moreover from this have "sorted_wrt (<) (map fst ?cs)" by (rule contiguous_increasing)
  moreover have "concat (map snd ?cs) = bytes" using step by (rule chunks_from_concat)
  ultimately show ?thesis by blast
qed

lemma open_on_android_ten: "open_on (Android android_ten) 1 ten_bytes"
  by (simp add: open_on_def android_ten_handle ten_bytes_def)

lemma open_on_ios_ten: "open_on (IOS ios_ten) 1 ten_bytes"
  by (simp add: open_on_def ios_ten_handle ten_bytes_def)

lemma chunks_ten_4:
  "chunks_from 4 0 ten_bytes = [(0, [48, 49, 50, 51]), (4, [52, 53, 54, 55]), (8, [56, 57])]"
  by (simp add: chunks_from.simps ten_bytes_def)

theorem readFileInChunks_roundtrip_witness:
  "open_on (Android android_ten) 1 ten_bytes \<and> chunk_size_ok (Android android_ten) 4 \<and>
   readFileInChunks (Android android_ten) 1
       \<lparr>chunkSize = Some 4, onProgress = None, onChunk = Some record_chunk\<rparr> []
     = Some (Inr (), [(0, [48, 49, 50, 51]), (4, [52, 53, 54, 55]), (8, [56, 57])]) \<and>
   concat (map snd [(0::int, [48, 49, 50, 51]), (4, [52, 53, 54, 55]), (8, [56, 57])]) = ten_bytes"
proof -
  have c: "chunk_size_ok (Android android_ten) 4" by (simp add: chunk_size_ok_def)
  have r: "request_length (Android android_ten) 4 = 4"
    by (simp add: request_length_def android_length')
  have e: "readFileInChunks (Android android_ten) 1
       \<lparr>chunkSize = Some 4, onProgress = None, onChunk = Some record_chunk\<rparr> []
     = Some (Inr (), [(0, [48, 49, 50, 51]), (4, [52, 53, 54, 55]), (8, [56, 57])])"
    unfolding readFileInChunks_deliver [OF open_on_android_ten, of "\<lparr>chunkSize = Some 4,
        onProgress = None, onChunk = Some record_chunk\<rparr>" "[]", simplified, OF c]
      r deliver_record chunks_ten_4 by simp
  show ?thesis
    using readFileInChunks_roundtrip [OF open_on_android_ten c] e open_on_android_ten c
    by auto
qed


section \<open>Hashing and the empty retry loop\<close>

lemma deliver_hash:
  "deliver (Some hash_update) None fsize cs hash = (Inr (), hash @ concat (map snd cs))"
  by (induction cs arbitrary: hash) (auto simp: hash_update_def)

lemma default_chunk_size_ok: "chunk_size_ok nm (4 * 1024 * 1024)"
  by (cases nm) (simp_all add: chunk_size_ok_def)

lemma hash_chunks:
  assumes op: "open_on nm handle bytes"
    and c: "chunk_size_ok nm (case copt of None \<Rightarrow> 4 * 1024 * 1024 | Some c \<Rightarrow> c)"
  shows "readFileInChunks nm handle
           \<lparr>chunkSize = copt, onProgress = None, onChunk = Some hash_update\<rparr> []
         = Some (Inr (), bytes)"
proof -
  have "0 < request_length nm (case copt of None \<Rightarrow> 4 * 1024 * 1024 | Some c \<Rightarrow> c)"
    using c by (rule request_length_pos)
  then show ?thesis
    using readFileInChunks_deliver [OF op, of "\<lparr>chunkSize = copt, onProgress = None,
        onChunk = Some hash_update\<rparr>" "[]"] c
    by (simp add: deliver_hash chunks_from_concat)
qed

text \<open>
  Claim C8. For a handle open on a file whose length is the size recorded at open,
  \<^verbatim>\<open>calculateFileHash\<close> returns the digest of the bytes of the file, and feeding the same hash
  callback through \<^verbatim>\<open>readFileInChunks\<close> with any chunk size of at least one leaves the hash
  object holding exactly the bytes of the file, hence the same digest.
\<close>

theorem calculateFileHash_chunk_independent:
  assumes op: "open_on nm handle bytes"
  shows "calculateFileHash sha256 nm handle = Some (Inr (sha256 bytes)) \<and>
    (\<forall>c. chunk_size_ok nm c \<longrightarrow>
       map_option (\<lambda>(r, hash). (r, sha256 hash))
         (readFileInChunks nm handle
            \<lparr>chunkSize = Some c, onProgress = None, onChunk = Some hash_update\<rparr> [])
       = Some (Inr (), sha256 bytes))"
proof (intro conjI allI impI)
  show "calculateFileHash sha256 nm handle = Some (Inr (sha256 bytes))"
    unfolding calculateFileHash_def
    using hash_chunks [OF op, of None] default_chunk_size_ok [of nm] by simp
next
  fix c assume "chunk_size_ok nm c"
  then show "map_option (\<lambda>(r, hash). (r, sha256 hash))
         (readFileInChunks nm handle
            \<lparr>chunkSize = Some c, onProgress = None, onChunk = Some hash_update\<rparr> [])
       = Some (Inr (), sha256 bytes)"
    using hash_chunks [OF op, of "Some c"] by simp
qed

theorem calculateFileHash_chunk_independent_witness:
  "open_on (Android android_ten) 1 ten_bytes \<and>
   calculateFileHash toHex (Android android_ten) 1 = Some (Inr ''30313233343536373839'') \<and>
   chunk_size_ok (Android android_ten) 1 \<and> chunk_size_ok (Android android_ten) 17 \<and>
   chunk_size_ok (Android android_ten) 11 \<and>
   map_option (\<lambda>(r, hash). (r, toHex hash))
      (readFileInChunks (Android android_ten) 1
         \<lparr>chunkSize = Some 1, onProgress = None, onChunk = Some hash_update\<rparr> [])
     = Some (Inr (), ''30313233343536373839'') \<and>
   map_option (\<lambda>(r, hash). (r, toHex hash))
      (readFileInChunks (Android android_ten) 1
         \<lparr>chunkSize = Some 17, onProgress = None, onChunk = Some hash_update\<rparr> [])
     = Some (Inr (), ''30313233343536373839'') \<and>
   map_option (\<lambda>(r, hash). (r, toHex hash))
      (readFileInChunks (Android android_ten) 1
         \<lparr>chunkSize = Some 11, onProgress = None, onChunk = Some hash_update\<rparr> [])
     = Some (Inr (), ''30313233343536373839'')"
proof -
  have h: "toHex ten_bytes = ''30313233343536373839''"
    unfolding ten_bytes_def by code_simp
  have c: "chunk_size_ok (Android android_ten) 1" "chunk_size_ok (Android android_ten) 17"
    "chunk_size_ok (Android android_ten) 11"
    by (simp_all add: chunk_size_ok_def)
  show ?thesis
    using calculateFileHash_chunk_independent [OF open_on_android_ten, of toHex]
      open_on_android_ten c h by simp
qed

lemma chunks_from_first:
  "0 < step \<Longrightarrow> bytes \<noteq> [] \<Longrightarrow>
   \<exists>rest. chunks_from step offs bytes = (offs, take step bytes) # rest"
  by (subst chunks_from.simps) simp

text \<open>
  Claim C10. With \<^verbatim>\<open>retryAttempts = 0\<close> on a non-empty file, \<^verbatim>\<open>uploadFileInChunks\<close> rejects with
  the generic error. The world is returned as it was given: no call of the upload function
  and no wait has been added to the trace, and the caller's state is untouched.
\<close>

theorem upload_zero_attempts_rejects:
  assumes op: "open_on nm handle bytes" and ne: "bytes \<noteq> []"
    and c: "chunk_size_ok nm (case chunkSize options of None \<Rightarrow> 4 * 1024 * 1024 | Some c \<Rightarrow> c)"
    and zero: "retryAttempts options = Some 0"
  shows "uploadFileInChunks nm handle options st =
    Some (Inl (Error ''Upload failed after all retry attempts''), st)"
proof -
  let ?c = "case chunkSize options of None \<Rightarrow> 4 * 1024 * 1024 | Some c \<Rightarrow> c"
  have step: "0 < request_length nm ?c" using c by (rule request_length_pos)
  obtain rest where cs: "chunks_from (request_length nm ?c) 0 bytes
      = (0, take (request_length nm ?c) bytes) # rest"
    using chunks_from_first [OF step ne] by blast
  have fail: "upload_onChunk uf 0 d chunk offs st =
      (Inl (Error ''Upload failed after all retry attempts''), st)" for uf d chunk offs
    unfolding upload_onChunk_def by (subst retry_loop.simps) (simp add: lastError_or_new_def)
  show ?thesis
    unfolding uploadFileInChunks_def Let_def zero
    using readFileInChunks_deliver [OF op, of "\<lparr>chunkSize = chunkSize options,
        onProgress = map_option in_world (onProgress options),
        onChunk = Some (upload_onChunk (uploadFunction options) 0
          (case retryDelay options of None \<Rightarrow> 1000 | Some d \<Rightarrow> d))\<rparr>" st] c
    by (simp add: cs fail)
qed


theorem upload_zero_attempts_rejects_witness:
  "open_on (IOS ios_ten) 1 ten_bytes \<and> ten_bytes \<noteq> [] \<and> chunk_size_ok (IOS ios_ten) 4 \<and>
   uploadFileInChunks (IOS ios_ten) 1
     \<lparr>chunkSize = Some 4, onProgress = None, onChunk = None, uploadFunction = flaky_upload,
      retryAttempts = Some 0, retryDelay = None\<rparr> \<lparr>user = 0, trace = []\<rparr>
   = Some (Inl (Error ''Upload failed after all retry attempts''), \<lparr>user = 0, trace = []\<rparr>)"
proof -
  have c: "chunk_size_ok (IOS ios_ten) 4" by (simp add: chunk_size_ok_def)
  have n: "ten_bytes \<noteq> []" by (simp add: ten_bytes_def)
  show ?thesis
    using upload_zero_attempts_rejects [OF open_on_ios_ten n, of "\<lparr>chunkSize = Some 4,
        onProgress = None, onChunk = None, uploadFunction = flaky_upload,
        retryAttempts = Some 0, retryDelay = None\<rparr>" "\<lparr>user = 0, trace = []\<rparr>"]
      open_on_ios_ten n c by simp
qed

section \<open>The retry loop of the uploader\<close>

lemma attempt_events_Suc:
  "attempt_events offs d (Suc k) = Invoke offs # (if k = 0 then [] else Wait d # attempt_events offs d k)"
  by (cases k) simp_all

lemma attempt_events_count:
  "length (filter (\<lambda>e. e = Invoke offs) (attempt_events offs d k)) = k"
  by (induction offs d k rule: attempt_events.induct) simp_all

lemma after_calls_Suc:
  "after_calls uf chunk offs (Suc k) w = after_calls uf chunk offs k (snd (uf chunk offs w))"
  using funpow_swap1 [of "\<lambda>v. snd (uf chunk offs v)" k w] by (simp add: after_calls_def)

lemma call_result_Suc:
  "call_result uf chunk offs (Suc k) w = call_result uf chunk offs k (snd (uf chunk offs w))"
  by (simp add: call_result_def after_calls_Suc)

lemma call_result_0: "call_result uf chunk offs 0 w = fst (uf chunk offs w)"
  by (simp add: call_result_def after_calls_def)

lemma retry_shape:
  "\<exists>k. int k \<le> max 0 (n - a) \<and> (a < n \<longrightarrow> 1 \<le> k) \<and>
       trace (snd (retry_loop uf n d chunk offs a le st)) = trace st @ attempt_events offs d k"
proof (induction uf n d chunk offs a le st rule: retry_loop.induct)
  case (1 uf n d chunk offs a le st)
  show ?case
  proof (cases "a < n")
    case False
    then show ?thesis
      by (subst retry_loop.simps) (simp add: exI [of _ 0])
  next
    case True
    note an = True
    obtain r w where u: "uf chunk offs (user st) = (r, w)" by (cases "uf chunk offs (user st)")
    show ?thesis
    proof (cases r)
      case (Inr x)
      have "int 1 \<le> max 0 (n - a) \<and> (a < n \<longrightarrow> 1 \<le> (1::nat)) \<and>
          trace (snd (retry_loop uf n d chunk offs a le st))
            = trace st @ attempt_events offs d 1"
        using True u Inr by (subst retry_loop.simps) simp
      then show ?thesis by blast
    next
      case (Inl err)
      let ?st2 = "\<lparr>user = w, trace = trace st @ [Invoke offs]
                  @ (if a < n - 1 then [Wait d] else [])\<rparr>"
      from "1.IH" [OF True u [symmetric] Inl]
      obtain k where k: "int k \<le> max 0 (n - (a + 1))" "a + 1 < n \<longrightarrow> 1 \<le> k"
        "trace (snd (retry_loop uf n d chunk offs (a + 1) (Some err) ?st2))
           = trace ?st2 @ attempt_events offs d k"
        by blast
      have unf: "retry_loop uf n d chunk offs a le st
          = retry_loop uf n d chunk offs (a + 1) (Some err) ?st2"
        using True u Inl by (subst retry_loop.simps) simp
      have "int (Suc k) \<le> max 0 (n - a) \<and> (a < n \<longrightarrow> 1 \<le> Suc k) \<and>
          trace (snd (retry_loop uf n d chunk offs a le st))
            = trace st @ attempt_events offs d (Suc k)"
      proof (cases "a < n - 1")
        case True
        with k show ?thesis unfolding unf by (simp add: attempt_events_Suc)
      next
        case False
        with an k have "k = 0" by simp
        with False an k show ?thesis unfolding unf by (simp add: attempt_events_Suc)
      qed
      then show ?thesis by blast
    qed
  qed
qed

lemma retry_succeeds:
  "a + int j < n \<Longrightarrow>
   (\<forall>i<j. \<exists>e. call_result uf chunk offs i (user st) = Inl e) \<Longrightarrow>
   call_result uf chunk offs j (user st) = Inr () \<Longrightarrow>
   retry_loop uf n d chunk offs a le st =
     (Inr (), \<lparr>user = after_calls uf chunk offs (Suc j) (user st),
               trace = trace st @ attempt_events offs d (Suc j)\<rparr>)"
proof (induction j arbitrary: a le st)
  case 0
  obtain r w where u: "uf chunk offs (user st) = (r, w)" by (cases "uf chunk offs (user st)")
  with 0 have r: "r = Inr ()" by (simp add: call_result_0)
  show ?case
    using 0 u r by (subst retry_loop.simps) (simp add: after_calls_def)
next
  case (Suc j)
  obtain r w where u: "uf chunk offs (user st) = (r, w)" by (cases "uf chunk offs (user st)")
  from Suc.prems(2) [rule_format, of 0] u obtain err where r: "r = Inl err"
    by (auto simp: call_result_0)
  let ?st2 = "\<lparr>user = w, trace = trace st @ [Invoke offs, Wait d]\<rparr>"
  have unf: "retry_loop uf n d chunk offs a le st
      = retry_loop uf n d chunk offs (a + 1) (Some err) ?st2"
    using Suc.prems(1) u r by (subst retry_loop.simps) simp
  have p1: "a + 1 + int j < n" using Suc.prems(1) by simp
  have p2: "\<forall>i<j. \<exists>e. call_result uf chunk offs i (user ?st2) = Inl e"
  proof (intro allI impI)
    fix i assume "i < j"
    then have "Suc i < Suc j" by simp
    with Suc.prems(2) obtain e where "call_result uf chunk offs (Suc i) (user st) = Inl e"
      by blast
    then show "\<exists>e. call_result uf chunk offs i (user ?st2) = Inl e"
      using u by (simp add: call_result_Suc)
  qed
  have p3: "call_result uf chunk offs j (user ?st2) = Inr ()"
    using Suc.prems(3) u by (simp add: call_result_Suc)
  show ?case
    unfolding unf Suc.IH [OF p1 p2 p3]
    using u by (simp add: after_calls_Suc [of uf chunk offs "Suc j"])
qed

lemma retry_exhausted:
  "n - a = int m \<Longrightarrow>
   (\<forall>i<m. \<exists>e. call_result uf chunk offs i (user st) = Inl e) \<Longrightarrow>
   retry_loop uf n d chunk offs a le st =
     (Inl (lastError_or_new
             (if m = 0 then le else Some (projl (call_result uf chunk offs (m - 1) (user st))))),
      \<lparr>user = after_calls uf chunk offs m (user st),
       trace = trace st @ attempt_events offs d m\<rparr>)"
proof (induction m arbitrary: a le st)
  case 0
  then show ?case
    by (subst retry_loop.simps) (simp add: after_calls_def)
next
  case (Suc m)
  obtain r w where u: "uf chunk offs (user st) = (r, w)" by (cases "uf chunk offs (user st)")
  from Suc.prems(2) [rule_format, of 0] u obtain err where r: "r = Inl err"
    by (auto simp: call_result_0)
  let ?st2 = "\<lparr>user = w, trace = trace st @ [Invoke offs]
                  @ (if a < n - 1 then [Wait d] else [])\<rparr>"
  have unf: "retry_loop uf n d chunk offs a le st
      = retry_loop uf n d chunk offs (a + 1) (Some err) ?st2"
    using Suc.prems(1) u r by (subst retry_loop.simps) simp
  have p1: "n - (a + 1) = int m" using Suc.prems(1) by simp
  have p2: "\<forall>i<m. \<exists>e. call_result uf chunk offs i (user ?st2) = Inl e"
  proof (intro allI impI)
    fix i assume "i < m"
    then have "Suc i < Suc m" by simp
    with Suc.prems(2) obtain e where "call_result uf chunk offs (Suc i) (user st) = Inl e"
      by blast
    then show "\<exists>e. call_result uf chunk offs i (user ?st2) = Inl e"
      using u by (simp add: call_result_Suc)
  qed
  have w: "a < n - 1 \<longleftrightarrow> m \<noteq> 0" using Suc.prems(1) by auto
  have e0: "projl (call_result uf chunk offs 0 (user st)) = err"
    using u r by (simp add: call_result_0)
  show ?case
    unfolding unf Suc.IH [OF p1 p2, of "Some err"]
    using u w e0
    by (cases m) (simp_all add: after_calls_Suc [of uf chunk offs "Suc _"] call_result_Suc after_calls_Suc [of uf chunk offs 0])
qed

lemma deliver_abort:
  "deliver (Some f) onP fsize cs1 st = (Inr (), st1) \<Longrightarrow> f ch p st1 = (Inl e, st2) \<Longrightarrow>
   deliver (Some f) onP fsize (cs1 @ (p, ch) # cs2) st = (Inl e, st2)"
proof (induction cs1 arbitrary: st)
  case Nil
  then show ?case by simp
next
  case (Cons a cs1)
  obtain q c where a: "a = (q, c)" by (cases a)
  from Cons.prems(1) show ?case
    unfolding a using Cons.IH [OF _ Cons.prems(2)]
    by (auto split: prod.splits sum.splits option.splits)
qed


section \<open>Retries per chunk\<close>

lemma uploadFileInChunks_deliver:
  assumes op: "open_on nm handle bytes" and c: "chunk_size_ok nm c"
  shows "uploadFileInChunks nm handle
        \<lparr>chunkSize = Some c, onProgress = g, onChunk = oc, uploadFunction = uf,
         retryAttempts = Some n, retryDelay = Some d\<rparr> w =
      Some (deliver (Some (upload_onChunk uf n d)) (map_option in_world g)
              (int (length bytes)) (chunks_from (request_length nm c) 0 bytes) w)"
  unfolding uploadFileInChunks_def Let_def
  using readFileInChunks_deliver [OF op, of "\<lparr>chunkSize = Some c,
      onProgress = map_option in_world g,
      onChunk = Some (upload_onChunk uf n d)\<rparr>" w] c
  by simp

lemma flaky_once:
  "upload_onChunk flaky_upload 2 10 chunk offs \<lparr>user = 0, trace = t\<rparr> =
     (Inr (), \<lparr>user = 2, trace = t @ [Invoke offs, Wait 10, Invoke offs]\<rparr>)"
  "k \<noteq> 0 \<Longrightarrow> upload_onChunk flaky_upload 2 10 chunk offs \<lparr>user = k, trace = t\<rparr> =
     (Inr (), \<lparr>user = Suc k, trace = t @ [Invoke offs]\<rparr>)"
  by (simp_all add: upload_onChunk_def retry_loop.simps flaky_upload_def)

lemma failing_once:
  "upload_onChunk failing_upload 1 10 chunk offs \<lparr>user = k, trace = t\<rparr> =
     (Inl (Error ''Network error''), \<lparr>user = Suc k, trace = t @ [Invoke offs]\<rparr>)"
  by (simp add: upload_onChunk_def retry_loop.simps failing_upload_def lastError_or_new_def)

lemma undefined_once:
  "upload_onChunk undefined_upload 1 10 chunk offs \<lparr>user = k, trace = t\<rparr> =
     (Inl (Error ''Upload failed after all retry attempts''),
      \<lparr>user = Suc k, trace = t @ [Invoke offs]\<rparr>)"
  by (simp add: upload_onChunk_def retry_loop.simps undefined_upload_def lastError_or_new_def)

text \<open>
  Claim C6, as stated, for an upload function that rejects with \<^verbatim>\<open>undefined\<close>, with
  \<^verbatim>\<open>retryAttempts = 1\<close>, on the first chunk of the ten-byte file. The one call is made and
  fails and no later chunk is attempted, but what the upload rejects with is the generic
  error, not the \<^verbatim>\<open>undefined\<close> of the last rejection.
\<close>

theorem upload_falsy_rejection_replaced:
  "call_result undefined_upload [48, 49, 50, 51] 0 0 0 = Inl (Thrown JsUndefined) \<and>
   uploadFileInChunks (Android android_ten) 1
     \<lparr>chunkSize = Some 4, onProgress = None, onChunk = None, uploadFunction = undefined_upload,
      retryAttempts = Some 1, retryDelay = Some 10\<rparr> \<lparr>user = 0, trace = []\<rparr>
   = Some (Inl (Error ''Upload failed after all retry attempts''),
           \<lparr>user = 1, trace = [Invoke 0]\<rparr>)"
proof -
  have c: "chunk_size_ok (Android android_ten) 4" by (simp add: chunk_size_ok_def)
  have r: "request_length (Android android_ten) 4 = 4"
    by (simp add: request_length_def android_length')
  have cr: "call_result undefined_upload [48, 49, 50, 51] 0 0 0 = Inl (Thrown JsUndefined)"
    by (simp add: call_result_def after_calls_def undefined_upload_def)
  show ?thesis
    unfolding uploadFileInChunks_deliver [OF open_on_android_ten c] r chunks_ten_4
    using cr by (simp add: undefined_once)
qed

text \<open>
  Claim C6, amended. For each chunk the retry wrapper calls the upload function at most
  \<^verbatim>\<open>retryAttempts\<close> times, and what it adds to the trace is those calls with one wait of
  \<^verbatim>\<open>retryDelay\<close> between each two of them and none after the last. If the call number \<open>j\<close>
  (below \<^verbatim>\<open>retryAttempts\<close>) is the first to succeed, the wrapper returns normally after
  \<open>j + 1\<close> calls. If all \<^verbatim>\<open>retryAttempts \<ge> 1\<close> calls fail, the wrapper throws after exactly
  \<^verbatim>\<open>retryAttempts\<close> calls: what the last call rejected with when that is truthy, as every
  \<^verbatim>\<open>Error\<close> object is, and the generic error when it is falsy. The upload as a whole hands the
  chunks of the file to the wrapper in order: after a chunk that succeeded the next chunk
  follows, and at the first chunk whose wrapper throws the upload ends with that error in
  the state the wrapper left, so that nothing is done for any later chunk.
\<close>

theorem upload_retries_per_chunk:
  "(\<exists>k. int k \<le> max 0 n \<and>
        trace (snd (upload_onChunk uf n d chunk offs st)) = trace st @ attempt_events offs d k \<and>
        length (filter (\<lambda>e. e = Invoke offs) (attempt_events offs d k)) = k) \<and>
   (int j < n \<and> (\<forall>i<j. \<exists>e. call_result uf chunk offs i (user st) = Inl e) \<and>
      call_result uf chunk offs j (user st) = Inr () \<longrightarrow>
      upload_onChunk uf n d chunk offs st =
        (Inr (), \<lparr>user = after_calls uf chunk offs (Suc j) (user st),
                  trace = trace st @ attempt_events offs d (Suc j)\<rparr>)) \<and>
   (1 \<le> n \<and> (\<forall>i<nat n. \<exists>e. call_result uf chunk offs i (user st) = Inl e) \<and>
      call_result uf chunk offs (nat n - 1) (user st) = Inl err \<longrightarrow>
      upload_onChunk uf n d chunk offs st =
        (Inl (if truthy err then err else Error ''Upload failed after all retry attempts''),
         \<lparr>user = after_calls uf chunk offs (nat n) (user st),
          trace = trace st @ attempt_events offs d (nat n)\<rparr>)) \<and>
   (open_on nm handle bytes \<and> chunk_size_ok nm c \<longrightarrow>
      uploadFileInChunks nm handle
        \<lparr>chunkSize = Some c, onProgress = g, onChunk = oc, uploadFunction = uf,
         retryAttempts = Some n, retryDelay = Some d\<rparr> w =
      Some (deliver (Some (upload_onChunk uf n d)) (map_option in_world g)
              (int (length bytes)) (chunks_from (request_length nm c) 0 bytes) w)) \<and>
   (upload_onChunk uf n d ch p w = (Inr (), w1) \<longrightarrow>
      deliver (Some (upload_onChunk uf n d)) None fsize ((p, ch) # cs2) w =
      deliver (Some (upload_onChunk uf n d)) None fsize cs2 w1) \<and>
   (deliver (Some (upload_onChunk uf n d)) onP fsize cs1 w = (Inr (), w1) \<and>
    upload_onChunk uf n d ch p w1 = (Inl err, w2) \<longrightarrow>
      deliver (Some (upload_onChunk uf n d)) onP fsize (cs1 @ (p, ch) # cs2) w = (Inl err, w2))"
proof (intro conjI impI)
  from retry_shape [of n 0 uf d chunk offs None st]
  obtain k where "int k \<le> max 0 n"
    "trace (snd (upload_onChunk uf n d chunk offs st)) = trace st @ attempt_events offs d k"
    unfolding upload_onChunk_def by auto
  then show "\<exists>k. int k \<le> max 0 n \<and>
        trace (snd (upload_onChunk uf n d chunk offs st)) = trace st @ attempt_events offs d k \<and>
        length (filter (\<lambda>e. e = Invoke offs) (attempt_events offs d k)) = k"
    using attempt_events_count by blast
next
  assume "int j < n \<and> (\<forall>i<j. \<exists>e. call_result uf chunk offs i (user st) = Inl e) \<and>
      call_result uf chunk offs j (user st) = Inr ()"
  then show "upload_onChunk uf n d chunk offs st =
        (Inr (), \<lparr>user = after_calls uf chunk offs (Suc j) (user st),
                  trace = trace st @ attempt_events offs d (Suc j)\<rparr>)"
    unfolding upload_onChunk_def using retry_succeeds [of 0 j n uf chunk offs st d None]
    by simp
next
  assume a: "1 \<le> n \<and> (\<forall>i<nat n. \<exists>e. call_result uf chunk offs i (user st) = Inl e) \<and>
      call_result uf chunk offs (nat n - 1) (user st) = Inl err"
  then have "n - 0 = int (nat n)" "nat n \<noteq> 0" by simp_all
  with a show "upload_onChunk uf n d chunk offs st =
        (Inl (if truthy err then err else Error ''Upload failed after all retry attempts''),
         \<lparr>user = after_calls uf chunk offs (nat n) (user st),
          trace = trace st @ attempt_events offs d (nat n)\<rparr>)"
    unfolding upload_onChunk_def
    using retry_exhausted [of n 0 "nat n" uf chunk offs st d None]
    by (simp add: lastError_or_new_def)
next
  assume "open_on nm handle bytes \<and> chunk_size_ok nm c"
  then show "uploadFileInChunks nm handle
        \<lparr>chunkSize = Some c, onProgress = g, onChunk = oc, uploadFunction = uf,
         retryAttempts = Some n, retryDelay = Some d\<rparr> w =
      Some (deliver (Some (upload_onChunk uf n d)) (map_option in_world g)
              (int (length bytes)) (chunks_from (request_length nm c) 0 bytes) w)"
    by (simp add: uploadFileInChunks_deliver)
next
  assume "upload_onChunk uf n d ch p w = (Inr (), w1)"
  then show "deliver (Some (upload_onChunk uf n d)) None fsize ((p, ch) # cs2) w =
      deliver (Some (upload_onChunk uf n d)) None fsize cs2 w1"
    by simp
next
  assume "deliver (Some (upload_onChunk uf n d)) onP fsize cs1 w = (Inr (), w1) \<and>
    upload_onChunk uf n d ch p w1 = (Inl err, w2)"
  then show "deliver (Some (upload_onChunk uf n d)) onP fsize (cs1 @ (p, ch) # cs2) w
      = (Inl err, w2)"
    using deliver_abort [of "upload_onChunk uf n d" onP fsize cs1 w w1 ch p err w2 cs2]
    by simp
qed

theorem upload_retries_per_chunk_witness:
  "open_on (Android android_ten) 1 ten_bytes \<and> chunk_size_ok (Android android_ten) 4 \<and>
   uploadFileInChunks (Android android_ten) 1
     \<lparr>chunkSize = Some 4, onProgress = None, onChunk = None, uploadFunction = flaky_upload,
      retryAttempts = Some 2, retryDelay = Some 10\<rparr> \<lparr>user = 0, trace = []\<rparr>
   = Some (Inr (), \<lparr>user = 4, trace = [Invoke 0, Wait 10, Invoke 0, Invoke 4, Invoke 8]\<rparr>) \<and>
   uploadFileInChunks (Android android_ten) 1
     \<lparr>chunkSize = Some 4, onProgress = None, onChunk = None, uploadFunction = failing_upload,
      retryAttempts = Some 1, retryDelay = Some 10\<rparr> \<lparr>user = 0, trace = []\<rparr>
   = Some (Inl (Error ''Network error''), \<lparr>user = 1, trace = [Invoke 0]\<rparr>) \<and>
   call_result flaky_upload [48, 49, 50, 51] 0 0 0 = Inl (Error ''Network error'') \<and>
   call_result flaky_upload [48, 49, 50, 51] 0 1 0 = Inr () \<and>
   upload_onChunk flaky_upload 2 10 [48, 49, 50, 51] 0 \<lparr>user = 0, trace = []\<rparr>
     = (Inr (), \<lparr>user = 2, trace = [Invoke 0, Wait 10, Invoke 0]\<rparr>) \<and>
   call_result failing_upload [48, 49, 50, 51] 0 0 0 = Inl (Error ''Network error'') \<and>
   upload_onChunk failing_upload 1 10 [48, 49, 50, 51] 0 \<lparr>user = 0, trace = []\<rparr>
     = (Inl (Error ''Network error''), \<lparr>user = 1, trace = [Invoke 0]\<rparr>) \<and>
   call_result undefined_upload [48, 49, 50, 51] 0 0 0 = Inl (Thrown JsUndefined) \<and>
   upload_onChunk undefined_upload 1 10 [48, 49, 50, 51] 0 \<lparr>user = 0, trace = []\<rparr>
     = (Inl (Error ''Upload failed after all retry attempts''),
        \<lparr>user = 1, trace = [Invoke 0]\<rparr>)"
proof -
  have cr: "call_result flaky_upload [48, 49, 50, 51] 0 0 0 = Inl (Error ''Network error'')"
    "call_result flaky_upload [48, 49, 50, 51] 0 1 0 = Inr ()"
    "call_result failing_upload [48, 49, 50, 51] 0 0 0 = Inl (Error ''Network error'')"
    "call_result undefined_upload [48, 49, 50, 51] 0 0 0 = Inl (Thrown JsUndefined)"
    by (simp_all add: call_result_def after_calls_def flaky_upload_def failing_upload_def
        undefined_upload_def)
  from upload_retries_per_chunk [where uf = flaky_upload and n = 2 and d = 10 and j = 1
      and chunk = "[48, 49, 50, 51]" and offs = 0 and st = "\<lparr>user = 0, trace = []\<rparr>"] cr
  have p4: "upload_onChunk flaky_upload 2 10 [48, 49, 50, 51] 0 \<lparr>user = 0, trace = []\<rparr>
     = (Inr (), \<lparr>user = 2, trace = [Invoke 0, Wait 10, Invoke 0]\<rparr>)"
    by (simp add: eval_nat_numeral after_calls_def flaky_upload_def)
  from upload_retries_per_chunk [where uf = failing_upload and n = 1 and d = 10
      and err = "Error ''Network error''"
      and chunk = "[48, 49, 50, 51]" and offs = 0 and st = "\<lparr>user = 0, trace = []\<rparr>"] cr
  have p5: "upload_onChunk failing_upload 1 10 [48, 49, 50, 51] 0 \<lparr>user = 0, trace = []\<rparr>
     = (Inl (Error ''Network error''), \<lparr>user = 1, trace = [Invoke 0]\<rparr>)"
    by (simp add: after_calls_def failing_upload_def)
  from upload_retries_per_chunk [where uf = undefined_upload and n = 1 and d = 10
      and err = "Thrown JsUndefined"
      and chunk = "[48, 49, 50, 51]" and offs = 0 and st = "\<lparr>user = 0, trace = []\<rparr>"] cr
  have p6: "upload_onChunk undefined_upload 1 10 [48, 49, 50, 51] 0 \<lparr>user = 0, trace = []\<rparr>
     = (Inl (Error ''Upload failed after all retry attempts''),
        \<lparr>user = 1, trace = [Invoke 0]\<rparr>)"
    by (simp add: after_calls_def undefined_upload_def)
  have c: "chunk_size_ok (Android android_ten) 4" by (simp add: chunk_size_ok_def)
  have r: "request_length (Android android_ten) 4 = 4"
    by (simp add: request_length_def android_length')
  have two: "Suc (Suc 0) = 2" "Suc 2 = 3" "Suc 3 = 4" by simp_all
  note T = upload_retries_per_chunk [where nm = "Android android_ten" and handle = 1
      and bytes = ten_bytes and c = 4 and g = None and oc = None and d = 10
      and w = "\<lparr>user = 0, trace = []\<rparr>"]
  from T [where uf = flaky_upload and n = 2] open_on_android_ten c
  have s4: "uploadFileInChunks (Android android_ten) 1
     \<lparr>chunkSize = Some 4, onProgress = None, onChunk = None, uploadFunction = flaky_upload,
      retryAttempts = Some 2, retryDelay = Some 10\<rparr> \<lparr>user = 0, trace = []\<rparr>
     = Some (deliver (Some (upload_onChunk flaky_upload 2 10)) None (int (length ten_bytes))
              (chunks_from 4 0 ten_bytes) \<lparr>user = 0, trace = []\<rparr>)"
    unfolding r by simp
  from T [where uf = failing_upload and n = 1] open_on_android_ten c
  have s5: "uploadFileInChunks (Android android_ten) 1
     \<lparr>chunkSize = Some 4, onProgress = None, onChunk = None, uploadFunction = failing_upload,
      retryAttempts = Some 1, retryDelay = Some 10\<rparr> \<lparr>user = 0, trace = []\<rparr>
     = Some (deliver (Some (upload_onChunk failing_upload 1 10)) None (int (length ten_bytes))
              (chunks_from 4 0 ten_bytes) \<lparr>user = 0, trace = []\<rparr>)"
    unfolding r by simp
  show ?thesis
    unfolding s4 s5 chunks_ten_4
    using open_on_android_ten c cr p4 p5 p6 by (simp add: flaky_once failing_once two)
qed


section \<open>File type detection\<close>

lemma hexchars_lower_all: "list_all (\<lambda>n. lower_char (hexchars ! n) = hexchars ! n) [0..<16]"
  by code_simp

lemma hexchars_lower: "n < 16 \<Longrightarrow> lower_char (hexchars ! n) = hexchars ! n"
  using hexchars_lower_all by (simp add: list_all_iff)

lemma toLowerCase_toHex: "toLowerCase (toHex bs) = toHex bs"
proof (induction bs)
  case Nil
  show ?case by (simp add: toLowerCase_def toHex_def)
next
  case (Cons b bs)
  have "unat b div 16 < 16" "unat b mod 16 < 16" using unat_byte_lt [of b] by simp_all
  then show ?case using Cons
    by (simp add: toLowerCase_def toHex_def hexchars_lower)
qed

lemma readFileHeader_16:
  assumes "handle_file nm handle = Some (bytes, sz)"
  shows "readFileHeader nm handle 16 = Inr (take 16 bytes)"
proof (cases nm)
  case (Android reg)
  with assms obtain h where h: "handles reg handle = Some h" "channel h = bytes"
    by (auto simp: handle_file_def)
  show ?thesis
  proof (cases "bytes = []")
    case True
    then show ?thesis
      by (simp add: readFileHeader_def Android BigMediaLoader_readBase64_def
          android_readBase64_result [OF h(1)] h toLong_def)
  next
    case False
    then have n: "\<not> min 16 (int (length bytes)) \<le> 0" by (cases bytes) auto
    have t: "take (nat (min 16 (int (length bytes)))) bytes = take 16 bytes"
      by (simp add: min_def)
    show ?thesis
      using n
      by (simp add: readFileHeader_def Android BigMediaLoader_readBase64_def
          android_readBase64_result [OF h(1)] h toLong_def base64_roundtrip t Let_def
          del: min_less_iff_conj min.bounded_iff)
  qed
next
  case (IOS reg)
  with assms obtain h where h: "handles reg handle = Some h" "fh h = bytes"
    by (auto simp: handle_file_def)
  show ?thesis
    by (simp add: readFileHeader_def IOS BigMediaLoader_readBase64_def ios_readBase64_def h
        unsignedLongLongValue_def base64_roundtrip)
qed

text \<open>
  Claim C9. For an open handle, \<^verbatim>\<open>detectFileType\<close> decides on the lowercase hexadecimal text
  of the first 16 bytes of the file (fewer when the file is shorter), by the fixed table:
  a prefix match for every row, and for \<^verbatim>\<open>video/avi\<close> the prefix \<^verbatim>\<open>52494646\<close> together with
  \<^verbatim>\<open>41564920\<close> somewhere in the text; a header that matches no row is
  \<^verbatim>\<open>application/octet-stream\<close>.
\<close>

theorem detectFileType_table:
  assumes f: "handle_file nm handle = Some (bytes, sz)"
  shows "let hex = toHex (take 16 bytes) in
    (prefix ''ffd8ff'' hex \<longrightarrow> detectFileType nm handle = Inr ''image/jpeg'') \<and>
    (prefix ''89504e47'' hex \<longrightarrow> detectFileType nm handle = Inr ''image/png'') \<and>
    (prefix ''47494638'' hex \<longrightarrow> detectFileType nm handle = Inr ''image/gif'') \<and>
    (prefix ''52494646'' hex \<and> sublist ''41564920'' hex \<longrightarrow>
       detectFileType nm handle = Inr ''video/avi'') \<and>
    (prefix ''000001b3'' hex \<longrightarrow> detectFileType nm handle = Inr ''video/mpeg'') \<and>
    (prefix ''66747970'' hex \<longrightarrow> detectFileType nm handle = Inr ''video/mp4'') \<and>
    (prefix ''1a45dfa3'' hex \<longrightarrow> detectFileType nm handle = Inr ''video/webm'') \<and>
    (prefix ''25504446'' hex \<longrightarrow> detectFileType nm handle = Inr ''application/pdf'') \<and>
    (prefix ''504b0304'' hex \<longrightarrow> detectFileType nm handle = Inr ''application/zip'') \<and>
    (\<not> prefix ''ffd8ff'' hex \<and> \<not> prefix ''89504e47'' hex \<and> \<not> prefix ''47494638'' hex \<and>
     \<not> (prefix ''52494646'' hex \<and> sublist ''41564920'' hex) \<and>
     \<not> prefix ''000001b3'' hex \<and> \<not> prefix ''66747970'' hex \<and> \<not> prefix ''1a45dfa3'' hex \<and>
     \<not> prefix ''25504446'' hex \<and> \<not> prefix ''504b0304'' hex \<longrightarrow>
       detectFileType nm handle = Inr ''application/octet-stream'')"
proof -
  define hex where "hex = toHex (take 16 bytes)"
  have d: "detectFileType nm handle =
    Inr (if prefix ''ffd8ff'' hex then ''image/jpeg''
         else if prefix ''89504e47'' hex then ''image/png''
         else if prefix ''47494638'' hex then ''image/gif''
         else if prefix ''52494646'' hex \<and> sublist ''41564920'' hex then ''video/avi''
         else if prefix ''000001b3'' hex then ''video/mpeg''
         else if prefix ''66747970'' hex then ''video/mp4''
         else if prefix ''1a45dfa3'' hex then ''video/webm''
         else if prefix ''25504446'' hex then ''application/pdf''
         else if prefix ''504b0304'' hex then ''application/zip''
         else ''application/octet-stream'')"
    unfolding detectFileType_def readFileHeader_16 [OF f] hex_def
    by (simp add: toLowerCase_toHex Let_def)
  have x: "False" if "prefix (a # as) hex" "prefix (b # bs) hex" "a \<noteq> b" for a b as bs
    using that by (cases hex) auto
  have y: "False" if "prefix (a # a' # as) hex" "prefix (a # b' # bs) hex" "a' \<noteq> b'"
    for a a' b' as bs
    using that by (cases hex; cases "tl hex") auto
  show ?thesis
    unfolding Let_def hex_def [symmetric] d
    by (intro conjI impI) (auto dest: x y)
qed


lemma android_file_handle:
  "handle_file (Android (android_file bs)) 1 = Some (bs, sint (of_nat (length bs) :: 64 word))"
  by (simp add: handle_file_def android_file_def android_open_def init_def)

theorem detectFileType_table_witness:
  "handle_file (Android (android_file jpeg_bytes)) 1 = Some (jpeg_bytes, 10) \<and>
   prefix ''ffd8ff'' (toHex (take 16 jpeg_bytes)) \<and>
   detectFileType (Android (android_file jpeg_bytes)) 1 = Inr ''image/jpeg'' \<and>
   prefix ''52494646'' (toHex (take 16 avi_bytes)) \<and>
   sublist ''41564920'' (toHex (take 16 avi_bytes)) \<and>
   detectFileType (Android (android_file avi_bytes)) 1 = Inr ''video/avi'' \<and>
   prefix ''52494646'' (toHex (take 16 wav_bytes)) \<and>
   \<not> sublist ''41564920'' (toHex (take 16 wav_bytes)) \<and>
   detectFileType (Android (android_file wav_bytes)) 1 = Inr ''application/octet-stream'' \<and>
   detectFileType (IOS ios_ten) 1 = Inr ''application/octet-stream''"
proof -
  have hx: "toHex (take 16 jpeg_bytes) = ''ffd8ffe000104a464946''"
    "toHex (take 16 avi_bytes) = ''5249464624080000415649204c495354''"
    "toHex (take 16 wav_bytes) = ''524946462408000057415645''"
    "toHex (take 16 ten_bytes) = ''30313233343536373839''"
    unfolding jpeg_bytes_def avi_bytes_def wav_bytes_def ten_bytes_def by code_simp+
  have sl: "sublist ''41564920'' ''5249464624080000415649204c495354''"
    "\<not> sublist ''41564920'' ''524946462408000057415645''"
    by code_simp+
  have hf: "handle_file (Android (android_file jpeg_bytes)) 1 = Some (jpeg_bytes, 10)"
    "handle_file (Android (android_file avi_bytes)) 1 = Some (avi_bytes, 18)"
    "handle_file (Android (android_file wav_bytes)) 1 = Some (wav_bytes, 12)"
    unfolding android_file_handle by (simp_all add: jpeg_bytes_def avi_bytes_def wav_bytes_def)
  have hi: "handle_file (IOS ios_ten) 1 = Some (ten_bytes, 10)"
    by (simp add: handle_file_def ios_ten_handle)
  show ?thesis
    using detectFileType_table [OF hf(1)] detectFileType_table [OF hf(2)]
      detectFileType_table [OF hf(3)] detectFileType_table [OF hi] hf(1) sl
    by (simp add: Let_def hx)
qed


section \<open>A chunk loop that does not end\<close>

lemma ios_truncated_read:
  "BigMediaLoader_readBase64 (IOS (ios_file_changed ios_ten 1 (take 5 ten_bytes))) 1 5 5 =
     Inr (Some \<lparr>offset = 5, bytesRead = 0, eof = False, base64 = ''''\<rparr>)"
  "BigMediaLoader_readBase64 (IOS (ios_file_changed ios_ten 1 (take 5 ten_bytes))) 1 0 5 =
     Inr (Some \<lparr>offset = 0, bytesRead = 5, eof = False,
       base64 = base64_encode (take 5 ten_bytes)\<rparr>)"
  "BigMediaLoader_stat (IOS (ios_file_changed ios_ten 1 (take 5 ten_bytes))) 1 =
     Inr (Some \<lparr>size_s = 10, mime_s = None, name_s = Some ''ten.txt'',
       uri_s = ''file:///ten.txt''\<rparr>)"
  by (simp_all add: BigMediaLoader_readBase64_def BigMediaLoader_stat_def ios_stat_def
      ios_readBase64_def ios_file_changed_def ios_ten_handle ten_bytes_def
      unsignedLongLongValue_def)

text \<open>
  What the missing zero-read branch of the iOS read means for the chunk loop: once the file
  behind the handle is shorter than the size recorded at open, the read at the end of the
  file returns no byte and \<open>eof = false\<close>, the offset does not advance, and
  \<^verbatim>\<open>readFileInChunks\<close> never returns.
\<close>

lemma ios_truncated_loop_stuck:
  "chunks_loop (IOS (ios_file_changed ios_ten 1 (take 5 ten_bytes))) 1 5 None None 10 5 st = None"
proof -
  let ?stuck = "\<lambda>nm h c onP onC fs offs.
      nm = IOS (ios_file_changed ios_ten 1 (take 5 ten_bytes)) \<and> h = 1 \<and> c = 5 \<and>
      onP = None \<and> onC = None \<and> fs = (10::int) \<and> offs = (5::int)"
  have "\<not> ?stuck nm h c onP onC fs offs"
    if "chunks_loop nm h c onP onC fs offs st = Some y"
    for nm h c and onP :: "'a progress_callback option" and onC fs offs st y
  proof (rule chunks_loop.raw_induct
      [where P = "\<lambda>nm h c onP onC fs offs st y. \<not> ?stuck nm h c onP onC fs offs", OF _ that],
      goal_cases)
    case (1 f nm h c onP onC fs offs st y)
    show ?case
    proof
      assume a: "?stuck nm h c onP onC fs offs"
      with 1(2) have "f nm h c onP onC fs offs st = Some y"
        by (simp add: ios_truncated_read)
      from 1(1) [OF this] a show False by simp
    qed
  qed
  note never = this
  show ?thesis
  proof (cases "chunks_loop (IOS (ios_file_changed ios_ten 1 (take 5 ten_bytes))) 1 5
        None None 10 5 st")
    case None
    then show ?thesis .
  next
    case (Some y)
    from never [OF Some] show ?thesis by simp
  qed
qed

lemma ios_truncated_readFileInChunks_never_returns:
  "readFileInChunks (IOS (ios_file_changed ios_ten 1 (take 5 ten_bytes))) 1
     \<lparr>chunkSize = Some 5, onProgress = None, onChunk = None\<rparr> st = None"
  unfolding readFileInChunks_def
  by (simp add: ios_truncated_read)
    (subst chunks_loop.simps, simp add: ios_truncated_read ios_truncated_loop_stuck)

end
